theory Spec2Isabelle
  imports Main
begin

section \<open>The browser driver and the service state\<close>

text \<open>
  The model follows \<^verbatim>\<open>src/src/chrome-service.ts\<close>. A browser is named by a handle, the
  index of its driver-side state in \<open>browsers\<close>. A promise is modelled at its settlement:
  \<open>Inr h\<close> is a promise resolved with the browser \<open>h\<close>, \<open>Inl e\<close> a promise rejected with
  the message \<open>e\<close>.
\<close>

type_synonym handle = nat
type_synonym page = nat

record config =
  maxConcurrentSessions :: int
  connectionTimeout :: int
  maxQueueLength :: int
  prebootChrome :: bool
  autoQueue :: bool
  keepAlive :: bool
  chromeRefreshTime :: int
  maxChromeRefreshRetries :: int

text \<open>
  What the service can see of a puppeteer browser: the arguments it was launched with,
  the pages that are open, and how often \<^verbatim>\<open>close()\<close> was called on it. With how many
  pages a browser starts is the driver's business; here it starts with none.
\<close>

record chrome =
  args :: "string list"
  open_pages :: "page list"
  next_page :: page
  close_calls :: nat

definition closed :: "chrome \<Rightarrow> bool" where
  "closed c = (0 < close_calls c)"

record response =
  statusCode :: nat
  contentType :: "string option"
  sent :: "(nat \<times> string) list"

definition headersSent :: "response \<Rightarrow> bool" where
  "headersSent r = (sent r \<noteq> [])"

datatype phase = Queued | Running | Succeeded | Errored | TimedOut

text \<open>
  \<open>browser\<close> is \<^verbatim>\<open>job.browser\<close>, \<open>page\<close> the page the job body opened, \<open>res\<close> the response
  of the request. \<open>phase\<close> and \<open>settled\<close> are not fields of the source: they record what
  the queue library knows of the job and whether the handler's promise has settled.
\<close>

record job =
  browser :: "handle option"
  page :: "page option"
  res :: response
  phase :: phase
  settled :: bool

record stats =
  successful :: nat
  error :: nat
  timedout :: nat
  queued :: nat

text \<open>
  The concurrency limit of the queue is a JavaScript number, which may be \<^verbatim>\<open>Infinity\<close>.
  \<open>below n l\<close> is \<^verbatim>\<open>n < l\<close> and \<open>at_most l m\<close> is \<^verbatim>\<open>l <= m\<close>.
\<close>

datatype limit = Finite int | Infinity

fun below :: "int \<Rightarrow> limit \<Rightarrow> bool" where
  "below n (Finite k) = (n < k)"
| "below n Infinity = True"


record service =
  chromeSwarm :: "(string + handle) list"
  queue :: "nat list"
  concurrency :: limit
  jobs :: "job list"
  currentStat :: stats
  timeoutHook_calls :: nat
  queueHook_calls :: nat
  browsers :: "chrome list"
  launches :: nat

text \<open>
  \<^verbatim>\<open>puppeteer.launch\<close> is the driver, outside the repository: the \<open>n\<close>-th call of the
  process, with its arguments, either starts a browser or fails with a message.
\<close>

datatype launch_outcome = Launched | LaunchFailed string

type_synonym driver = "nat \<Rightarrow> string list \<Rightarrow> launch_outcome"

definition fresh_chrome :: "string list \<Rightarrow> chrome" where
  "fresh_chrome as = \<lparr>args = as, open_pages = [], next_page = 0, close_calls = 0\<rparr>"

definition puppeteer_launch :: "driver \<Rightarrow> string list \<Rightarrow> service \<Rightarrow> (string + handle) \<times> service" where
  "puppeteer_launch drv as s =
     (case drv (launches s) as of
        LaunchFailed e \<Rightarrow> (Inl e, s\<lparr>launches := Suc (launches s)\<rparr>)
      | Launched \<Rightarrow>
          (Inr (length (browsers s)),
           s\<lparr>launches := Suc (launches s), browsers := browsers s @ [fresh_chrome as]\<rparr>))"

definition launch_args :: "string list \<Rightarrow> string list" where
  "launch_args flags = flags @ [''--no-sandbox'', ''--disable-dev-shm-usage'']"

text \<open>\<^verbatim>\<open>launchChrome(flags = [], retries = 1)\<close>, lines 130-151.\<close>

function launchChrome :: "driver \<Rightarrow> string list \<Rightarrow> int \<Rightarrow> service \<Rightarrow> (string + handle) \<times> service" where
  "launchChrome drv flags retries s =
     (case puppeteer_launch drv (launch_args flags) s of
        (Inr chrome, s') \<Rightarrow> (Inr chrome, s')
      | (Inl e, s') \<Rightarrow>
          if retries > 0 then launchChrome drv flags (retries - 1) s'
          else (Inl e, s'))"
  by pat_completeness auto
termination
  by (relation "measure (\<lambda>(drv, flags, retries, s). nat retries)") auto

declare launchChrome.simps [simp del]

section \<open>Driver calls and the response object\<close>

definition upd_browser :: "handle \<Rightarrow> (chrome \<Rightarrow> chrome) \<Rightarrow> service \<Rightarrow> service" where
  "upd_browser h f s = s\<lparr>browsers := (browsers s)[h := f (browsers s ! h)]\<rparr>"

definition upd_job :: "nat \<Rightarrow> (job \<Rightarrow> job) \<Rightarrow> service \<Rightarrow> service" where
  "upd_job j f s = s\<lparr>jobs := (jobs s)[j := f (jobs s ! j)]\<rparr>"

text \<open>\<^verbatim>\<open>browser.close()\<close>, \<^verbatim>\<open>page.close()\<close>, \<^verbatim>\<open>browser.newPage()\<close> and \<^verbatim>\<open>browser.pages()\<close>.\<close>

definition browser_close :: "handle \<Rightarrow> service \<Rightarrow> service" where
  "browser_close h = upd_browser h (\<lambda>c. c\<lparr>close_calls := Suc (close_calls c)\<rparr>)"

definition page_close :: "handle \<Rightarrow> page \<Rightarrow> service \<Rightarrow> service" where
  "page_close h p = upd_browser h (\<lambda>c. c\<lparr>open_pages := removeAll p (open_pages c)\<rparr>)"

definition newPage :: "handle \<Rightarrow> service \<Rightarrow> page \<times> service" where
  "newPage h s =
     (next_page (browsers s ! h),
      upd_browser h (\<lambda>c. c\<lparr>open_pages := open_pages c @ [next_page c],
                              next_page := Suc (next_page c)\<rparr>) s)"

definition pages :: "handle \<Rightarrow> service \<Rightarrow> page list" where
  "pages h s = open_pages (browsers s ! h)"

datatype body = Binary string | Json string | Text string

definition res_status :: "nat \<Rightarrow> response \<Rightarrow> response" where
  "res_status n r = r\<lparr>statusCode := n\<rparr>"

definition res_type :: "string \<Rightarrow> response \<Rightarrow> response" where
  "res_type t r = r\<lparr>contentType := Some t\<rparr>"

text \<open>
  \<^verbatim>\<open>res.send\<close>, \<^verbatim>\<open>res.json\<close> and \<^verbatim>\<open>res.end\<close> write a body under the current status. The
  response is a log of the writes made by the service, in order.
\<close>

definition body_text :: "body \<Rightarrow> string" where
  "body_text b = (case b of Binary x \<Rightarrow> x | Json x \<Rightarrow> x | Text x \<Rightarrow> x)"

definition res_send :: "body \<Rightarrow> response \<Rightarrow> response" where
  "res_send b r = r\<lparr>sent := sent r @ [(statusCode r, body_text b)]\<rparr>"

definition new_response :: response where
  "new_response = \<lparr>statusCode = 200, contentType = None, sent = []\<rparr>"

text \<open>
  Modelled from the spec: \<^verbatim>\<open>rejectReq\<close> is a method of \<^verbatim>\<open>BrowserlessServer\<close>, which is
  not among the sources. The spec says of it: a capacity-exceeded response, of the
  429 class, written immediately.
\<close>

definition rejectReq :: "string \<Rightarrow> response \<Rightarrow> response" where
  "rejectReq msg r = res_send (Text msg) (res_status 429 r)"

text \<open>
  Errors: a \<^verbatim>\<open>TypeError\<close> from reading a property of \<^verbatim>\<open>undefined\<close> or \<^verbatim>\<open>null\<close>, an error
  made by the submitted code, with its message, and the error that Express throws when
  headers are set on a response that was already sent. What is thrown or rejected with
  need not be an error: it may be a value without a \<^verbatim>\<open>message\<close>, such as a string, or
  \<^verbatim>\<open>undefined\<close> or \<^verbatim>\<open>null\<close>.
\<close>

datatype js_error = TypeError string | Rejection string | HeadersSent

datatype thrown = Thrown js_error | Plain | Nullish

definition message :: "js_error \<Rightarrow> string" where
  "message err = (case err of
      TypeError prop \<Rightarrow> ''Cannot read property '' @ prop @ '' of undefined''
    | Rejection m \<Rightarrow> m
    | HeadersSent \<Rightarrow> ''Cannot set headers after they are sent to the client'')"

text \<open>
  \<^verbatim>\<open>error.message\<close>: a \<^verbatim>\<open>TypeError\<close> on \<^verbatim>\<open>undefined\<close> and \<^verbatim>\<open>null\<close>, nothing to send on a
  value without a message.
\<close>

definition thrown_message :: "thrown \<Rightarrow> js_error + string" where
  "thrown_message err = (case err of
      Thrown e \<Rightarrow> Inr (message e)
    | Plain \<Rightarrow> Inr []
    | Nullish \<Rightarrow> Inl (TypeError ''message''))"

text \<open>
  \<^verbatim>\<open>res.type(t)\<close> and \<^verbatim>\<open>res.send(b)\<close> as the bodies of \<^verbatim>\<open>then\<close> and \<^verbatim>\<open>catch\<close> call them,
  with no check of \<^verbatim>\<open>res.headersSent\<close> before: on a response that was sent they throw.
\<close>

definition express_type :: "string \<Rightarrow> response \<Rightarrow> js_error + response" where
  "express_type t r = (if headersSent r then Inl HeadersSent else Inr (res_type t r))"

definition express_send :: "body \<Rightarrow> response \<Rightarrow> js_error + response" where
  "express_send b r = (if headersSent r then Inl HeadersSent else Inr (res_send b r))"

text \<open>\<^verbatim>\<open>String.prototype.includes\<close>.\<close>

fun str_includes :: "string \<Rightarrow> string \<Rightarrow> bool" where
  "str_includes [] sub = (sub = [])"
| "str_includes (c # cs) sub = (take (length sub) (c # cs) = sub \<or> str_includes cs sub)"

section \<open>The methods of \<^verbatim>\<open>ChromeService\<close>\<close>

text \<open>
  \<^verbatim>\<open>getChrome(flags?)\<close>, lines 54-59. The parameter is optional, so a caller may leave
  it out; reading \<^verbatim>\<open>.length\<close> of \<^verbatim>\<open>undefined\<close> throws.
\<close>

datatype flags_arg = Undefined | Array "string list"

definition getChrome :: "driver \<Rightarrow> flags_arg \<Rightarrow> service \<Rightarrow> js_error + ((string + handle) \<times> service)" where
  "getChrome drv flags s =
     (case flags of
        Undefined \<Rightarrow> Inl (TypeError ''length'')
      | Array fl \<Rightarrow>
          (let canUseChromeSwarm = (length fl = 0 \<and> length (chromeSwarm s) \<noteq> 0) in
           if canUseChromeSwarm
           then (case chromeSwarm s of
                   p # rest \<Rightarrow> Inr (p, s\<lparr>chromeSwarm := rest\<rparr>)
                 | [] \<Rightarrow> Inr (launchChrome drv fl 1 s))
           else Inr (launchChrome drv fl 1 s)))"

text \<open>\<^verbatim>\<open>autoUpdateQueue()\<close>, lines 65-70.\<close>

definition autoUpdateQueue :: "config \<Rightarrow> bool \<Rightarrow> service \<Rightarrow> service" where
  "autoUpdateQueue cfg isMachineStrained s =
     (if autoQueue cfg \<and> below (int (length (queue s))) (concurrency s)
      then s\<lparr>concurrency :=
               Finite (if isMachineStrained then int (length (queue s))
                       else maxConcurrentSessions cfg)\<rparr>
      else s)"

text \<open>
  \<^verbatim>\<open>this.chromeSwarm.push(this.launchChrome())\<close>, as the constructor,
  \<^verbatim>\<open>refreshChromeInstance\<close> and \<^verbatim>\<open>addToChromeSwarm\<close> write it.
\<close>

definition push_launch :: "driver \<Rightarrow> service \<Rightarrow> service" where
  "push_launch drv s =
     (case launchChrome drv [] 1 s of (p, s1) \<Rightarrow> s1\<lparr>chromeSwarm := chromeSwarm s1 @ [p]\<rparr>)"

text \<open>
  \<^verbatim>\<open>refreshChromeInstance(instance)\<close>, lines 89-96. Awaiting a rejected launch throws
  before anything is done.
\<close>

definition refreshChromeInstance :: "config \<Rightarrow> driver \<Rightarrow> (string + handle) \<Rightarrow> service \<Rightarrow> service" where
  "refreshChromeInstance cfg drv instance s =
     (case instance of
        Inl e \<Rightarrow> s
      | Inr chrome \<Rightarrow>
          (let s1 = browser_close chrome s in
           if keepAlive cfg \<and> int (length (chromeSwarm s1)) \<ge> maxConcurrentSessions cfg
           then push_launch drv s1
           else s1))"

text \<open>
  One pass \<^verbatim>\<open>this.chromeSwarm.forEach(chromeInstance => this.refreshChromeInstance(chromeInstance))\<close>
  of \<^verbatim>\<open>refreshChromeSwarm\<close>, line 83: the instances are those in the swarm when the pass
  starts. The timers and the retry count of \<^verbatim>\<open>refreshChromeSwarm\<close> are not modelled.
\<close>

definition refresh_pass :: "config \<Rightarrow> driver \<Rightarrow> service \<Rightarrow> service" where
  "refresh_pass cfg drv s = fold (refreshChromeInstance cfg drv) (chromeSwarm s) s"

text \<open>\<^verbatim>\<open>addToChromeSwarm()\<close>, lines 98-103.\<close>

definition addToChromeSwarm :: "config \<Rightarrow> driver \<Rightarrow> service \<Rightarrow> service" where
  "addToChromeSwarm cfg drv s =
     (if prebootChrome cfg \<and> below (int (length (chromeSwarm s))) (concurrency s)
      then push_launch drv s
      else s)"

text \<open>\<^verbatim>\<open>onSessionComplete()\<close> and \<^verbatim>\<open>onSessionFail()\<close>, lines 105-113.\<close>

definition onSessionComplete :: "config \<Rightarrow> driver \<Rightarrow> service \<Rightarrow> service" where
  "onSessionComplete cfg drv s =
     addToChromeSwarm cfg drv
       (s\<lparr>currentStat := (currentStat s)\<lparr>successful := successful (currentStat s) + 1\<rparr>\<rparr>)"

definition onSessionFail :: "config \<Rightarrow> driver \<Rightarrow> service \<Rightarrow> service" where
  "onSessionFail cfg drv s =
     addToChromeSwarm cfg drv
       (s\<lparr>currentStat := (currentStat s)\<lparr>error := error (currentStat s) + 1\<rparr>\<rparr>)"

text \<open>\<^verbatim>\<open>onQueued(req)\<close>, lines 124-128.\<close>

definition onQueued :: "service \<Rightarrow> service" where
  "onQueued s =
     (s\<lparr>currentStat := (currentStat s)\<lparr>queued := queued (currentStat s) + 1\<rparr>\<rparr>)
        \<lparr>queueHook_calls := Suc (queueHook_calls s)\<rparr>"

text \<open>\<^verbatim>\<open>reuseChromeInstance(instance)\<close>, lines 153-157, at the time its body runs.\<close>

definition reuseChromeInstance :: "handle \<Rightarrow> service \<Rightarrow> service" where
  "reuseChromeInstance instance s =
     (let openPages = pages instance s;
          s1 = fold (page_close instance) openPages s
      in s1\<lparr>chromeSwarm := chromeSwarm s1 @ [Inr instance]\<rparr>)"

text \<open>
  \<^verbatim>\<open>job.close\<close>, lines 218-226, and the request's \<^verbatim>\<open>'close'\<close> listener, lines 228-233,
  for the job \<open>j\<close>. The timeout response is sent under the check of \<^verbatim>\<open>res.headersSent\<close>,
  so this send does not throw.
\<close>

definition job_close :: "config \<Rightarrow> nat \<Rightarrow> service \<Rightarrow> service" where
  "job_close cfg j s =
     (let s1 = (case browser (jobs s ! j) of
                  Some b \<Rightarrow> if keepAlive cfg then reuseChromeInstance b s else browser_close b s
                | None \<Rightarrow> s)
      in if \<not> headersSent (res (jobs s1 ! j))
         then upd_job j (\<lambda>jb. jb\<lparr>res := res_send (Text ''browserless function has timed-out'')
                                          (res_status 408 (res jb))\<rparr>) s1
         else s1)"

definition req_on_close :: "config \<Rightarrow> nat \<Rightarrow> service \<Rightarrow> service" where
  "req_on_close cfg j s =
     (case browser (jobs s ! j) of
        Some b \<Rightarrow> if keepAlive cfg then reuseChromeInstance b s else browser_close b s
      | None \<Rightarrow> s)"

text \<open>
  \<^verbatim>\<open>next()\<close> of the queue library: the job leaves the queue.
\<close>

definition queue_next :: "nat \<Rightarrow> service \<Rightarrow> service" where
  "queue_next j s = s\<lparr>queue := remove1 j (queue s)\<rparr>"

text \<open>\<^verbatim>\<open>onTimedOut(next, job)\<close>, lines 115-122.\<close>

definition onTimedOut :: "config \<Rightarrow> driver \<Rightarrow> nat \<Rightarrow> service \<Rightarrow> service" where
  "onTimedOut cfg drv j s =
     (let s1 = job_close cfg j s;
          s2 = s1\<lparr>currentStat := (currentStat s1)\<lparr>timedout := timedout (currentStat s1) + 1\<rparr>\<rparr>;
          s3 = s2\<lparr>timeoutHook_calls := Suc (timeoutHook_calls s2)\<rparr>;
          s4 = onSessionComplete cfg drv s3
      in queue_next j s4)"

text \<open>
  \<^verbatim>\<open>runFunction({ code, context, req, res })\<close>, lines 159-236, up to the push.
  \<^verbatim>\<open>vm.run(code)\<close>, line 176, is the code-execution library: \<open>vm_run code\<close> is the error it
  throws when it cannot bind the code, \<open>None\<close> when it returns a handler. Nothing catches
  the error: \<^verbatim>\<open>runFunction\<close> ends there, after the limit and the \<^verbatim>\<open>queued\<close> counter were
  updated, with no job made, nothing pushed and no response written.
\<close>

type_synonym vm = "string \<Rightarrow> js_error option"

datatype admission = Rejected response | BindFailed js_error | Pushed nat

definition new_job :: job where
  "new_job = \<lparr>browser = None, page = None, res = new_response, phase = Queued, settled = False\<rparr>"

definition runFunction :: "config \<Rightarrow> vm \<Rightarrow> bool \<Rightarrow> string \<Rightarrow> service \<Rightarrow> admission \<times> service" where
  "runFunction cfg vm_run isMachineStrained code s =
     (let queueLength = int (length (queue s)) in
      if queueLength \<ge> maxQueueLength cfg
      then (Rejected (rejectReq ''Too Many Requests'' new_response), s)
      else
        (let s1 = (if autoQueue cfg \<and> below (int (length (queue s))) (concurrency s)
                   then s\<lparr>concurrency :=
                            Finite (if isMachineStrained then int (length (queue s))
                                    else maxConcurrentSessions cfg)\<rparr>
                   else s);
             s2 = (if \<not> below queueLength (concurrency s1) then onQueued s1 else s1)
         in case vm_run code of
              Some err \<Rightarrow> (BindFailed err, s2)
            | None \<Rightarrow>
                (let j = length (jobs s2)
                 in (Pushed j, s2\<lparr>jobs := jobs s2 @ [new_job], queue := queue s2 @ [j]\<rparr>))))"

section \<open>The body of a job\<close>

text \<open>
  Lines 181-188: take the first launch of the swarm or launch a browser, await it, open
  a page and set \<^verbatim>\<open>job.browser\<close>. A rejected launch rejects the job: the result then
  carries the message.
\<close>

definition job_start :: "driver \<Rightarrow> nat \<Rightarrow> service \<Rightarrow> string option \<times> service" where
  "job_start drv j s =
     (case (case chromeSwarm s of
              p # rest \<Rightarrow> (p, s\<lparr>chromeSwarm := rest\<rparr>)
            | [] \<Rightarrow> launchChrome drv [] 1 s) of
        (Inl e, s1) \<Rightarrow> (Some e, s1)
      | (Inr b, s1) \<Rightarrow>
          (case newPage b s1 of
             (pg, s2) \<Rightarrow> (None, upd_job j (\<lambda>jb. jb\<lparr>browser := Some b, page := Some pg\<rparr>) s2)))"

text \<open>
  What the call \<^verbatim>\<open>handler({ page, context })\<close> comes to. It resolves with an object, whose
  \<^verbatim>\<open>data\<close> is a \<^verbatim>\<open>Buffer\<close> or another value and whose \<^verbatim>\<open>type\<close> may be missing (the source
  writes \<^verbatim>\<open>type || 'text/plain'\<close>); or it resolves with \<^verbatim>\<open>undefined\<close> or \<^verbatim>\<open>null\<close>; or it
  rejects; or the call itself throws or returns no promise, so that neither \<^verbatim>\<open>then\<close> nor
  \<^verbatim>\<open>catch\<close> is attached.
\<close>

datatype payload = Buffer string | Value string

datatype handler_result =
    Resolves payload "string option"
  | ResolvesNothing
  | Rejects thrown
  | Throws thrown

text \<open>
  A call on the response of the job \<open>j\<close> that may throw: the error comes with the state
  in which it is thrown.
\<close>

definition with_res :: "nat \<Rightarrow> (response \<Rightarrow> js_error + response) \<Rightarrow> service
    \<Rightarrow> (js_error \<times> service) + service" where
  "with_res j f s =
     (case f (res (jobs s ! j)) of
        Inl e \<Rightarrow> Inl (e, s)
      | Inr r \<Rightarrow> Inr (upd_job j (\<lambda>jb. jb\<lparr>res := r\<rparr>) s))"

text \<open>
  The \<^verbatim>\<open>then\<close> branch, lines 191-210, with the browser \<open>b\<close> and the page \<open>pg\<close> of the
  closure. The browser is recycled or closed inside \<^verbatim>\<open>_.attempt\<close> first. \<^verbatim>\<open>res.type\<close> throws
  when the response was sent, \<^verbatim>\<open>type.includes\<close> when \<^verbatim>\<open>type\<close> is missing.
\<close>

definition job_then :: "config \<Rightarrow> nat \<Rightarrow> handle \<Rightarrow> page \<Rightarrow> payload \<Rightarrow> string option \<Rightarrow> service
    \<Rightarrow> (js_error \<times> service) + service" where
  "job_then cfg j b pg d t s =
     (let s1 = (if keepAlive cfg
                then (let s0 = page_close b pg s in s0\<lparr>chromeSwarm := chromeSwarm s0 @ [Inr b]\<rparr>)
                else browser_close b s);
          ty = (case t of None \<Rightarrow> ''text/plain'' | Some x \<Rightarrow> if x = [] then ''text/plain'' else x)
      in case with_res j (express_type ty) s1 of
           Inl x \<Rightarrow> Inl x
         | Inr s2 \<Rightarrow>
             (case d of
                Buffer x \<Rightarrow> with_res j (express_send (Binary x)) s2
              | Value x \<Rightarrow>
                  (case t of
                     None \<Rightarrow> Inl (TypeError ''includes'', s2)
                   | Some y \<Rightarrow>
                       if str_includes y ''json''
                       then with_res j (express_send (Json x)) s2
                       else with_res j (express_send (Text x)) s2)))"

text \<open>
  The \<^verbatim>\<open>catch\<close> branch, lines 211-215: \<^verbatim>\<open>res.status(500).send(error.message)\<close>, outside
  \<^verbatim>\<open>_.attempt\<close>, and then the close of the browser. Reading \<^verbatim>\<open>error.message\<close> throws when
  \<^verbatim>\<open>error\<close> is \<^verbatim>\<open>undefined\<close> or \<^verbatim>\<open>null\<close>, and \<^verbatim>\<open>send\<close> throws when the response was sent; the
  browser is not closed then. The status is set before either.
\<close>

definition job_catch :: "nat \<Rightarrow> handle \<Rightarrow> thrown \<Rightarrow> service \<Rightarrow> (js_error \<times> service) + service" where
  "job_catch j b err s =
     (let s1 = upd_job j (\<lambda>jb. jb\<lparr>res := res_status 500 (res jb)\<rparr>) s in
      case thrown_message err of
        Inl x \<Rightarrow> Inl (x, s1)
      | Inr m \<Rightarrow>
          (case with_res j (express_send (Text m)) s1 of
             Inl x \<Rightarrow> Inl x
           | Inr s2 \<Rightarrow> Inr (browser_close b s2)))"

text \<open>
  The job's promise after the handler was called:
  \<^verbatim>\<open>handler({ page, context }).then(...).catch(...)\<close>. The \<^verbatim>\<open>catch\<close> also receives what the
  \<^verbatim>\<open>then\<close> branch throws. The result says what the job's promise rejects with, if it
  does: what the call or the \<^verbatim>\<open>catch\<close> branch threw.
\<close>

definition after_catch :: "(js_error \<times> service) + service \<Rightarrow> thrown option \<times> service" where
  "after_catch x = (case x of Inl (e, s) \<Rightarrow> (Some (Thrown e), s) | Inr s \<Rightarrow> (None, s))"

definition job_settle :: "config \<Rightarrow> nat \<Rightarrow> handler_result \<Rightarrow> service \<Rightarrow> thrown option \<times> service" where
  "job_settle cfg j r s =
     (case (browser (jobs s ! j), page (jobs s ! j)) of
        (Some b, Some pg) \<Rightarrow>
          (case r of
             Throws err \<Rightarrow> (Some err, s)
           | Rejects err \<Rightarrow> after_catch (job_catch j b err s)
           | ResolvesNothing \<Rightarrow> after_catch (job_catch j b (Thrown (TypeError ''data'')) s)
           | Resolves d t \<Rightarrow>
               (case job_then cfg j b pg d t s of
                  Inr s1 \<Rightarrow> (None, s1)
                | Inl (e, s1) \<Rightarrow> after_catch (job_catch j b (Thrown e) s1)))
      | _ \<Rightarrow> (None, s))"

text \<open>The handler, which holds the page, opens another page of the same browser.\<close>

definition handler_opens_page :: "nat \<Rightarrow> service \<Rightarrow> service" where
  "handler_opens_page j s =
     (case browser (jobs s ! j) of Some b \<Rightarrow> snd (newPage b s) | None \<Rightarrow> s)"

section \<open>The service as a transition system\<close>

text \<open>
  The constructor, lines 28-52. The queue library, outside the repository, takes its
  limit as \<^verbatim>\<open>options.concurrency || Infinity\<close>: a configured maximum of \<open>0\<close> gives a queue
  without limit.
\<close>

fun preboot :: "driver \<Rightarrow> nat \<Rightarrow> service \<Rightarrow> service" where
  "preboot drv 0 s = s"
| "preboot drv (Suc n) s = preboot drv n (push_launch drv s)"

definition ChromeService :: "config \<Rightarrow> driver \<Rightarrow> service" where
  "ChromeService cfg drv =
     (let s0 = \<lparr>chromeSwarm = [], queue = [],
                concurrency = (if maxConcurrentSessions cfg = 0 then Infinity
                               else Finite (maxConcurrentSessions cfg)),
                jobs = [],
                currentStat = \<lparr>successful = 0, error = 0, timedout = 0, queued = 0\<rparr>,
                timeoutHook_calls = 0, queueHook_calls = 0, browsers = [], launches = 0\<rparr>
      in if prebootChrome cfg then preboot drv (nat (maxConcurrentSessions cfg)) s0 else s0)"

text \<open>
  The events of the event loop. The queue library is outside the repository: it starts a
  queued job, reports a settled job with \<^verbatim>\<open>'success'\<close> or \<^verbatim>\<open>'error'\<close>, and reports a job
  whose timer fires with \<^verbatim>\<open>'timeout'\<close>, after which the job's own settlement is ignored
  by the queue but still runs the job's \<^verbatim>\<open>then\<close> or \<^verbatim>\<open>catch\<close> branch. Which queued job it
  starts, and when, is left open here. A request comes with the monitor's signal, its
  code, and the error that \<^verbatim>\<open>vm.run\<close> throws on this code, if any.
\<close>

datatype event =
    Request bool string "js_error option"
  | AutoUpdate bool
  | Start nat
  | HandlerOpensPage nat
  | Settle nat handler_result
  | Timeout nat
  | Disconnect nat
  | Refresh "string + handle"
  | GetChrome flags_arg

definition queue_start :: "config \<Rightarrow> driver \<Rightarrow> nat \<Rightarrow> service \<Rightarrow> service" where
  "queue_start cfg drv j s =
     (case job_start drv j (upd_job j (\<lambda>jb. jb\<lparr>phase := Running\<rparr>) s) of
        (None, s1) \<Rightarrow> s1
      | (Some e, s1) \<Rightarrow>
          onSessionFail cfg drv (queue_next j (upd_job j (\<lambda>jb. jb\<lparr>phase := Errored\<rparr>) s1)))"

definition queue_settle :: "config \<Rightarrow> driver \<Rightarrow> nat \<Rightarrow> handler_result \<Rightarrow> service \<Rightarrow> service" where
  "queue_settle cfg drv j r s =
     (let s1 = upd_job j (\<lambda>jb. jb\<lparr>settled := True\<rparr>) (snd (job_settle cfg j r s)) in
      if phase (jobs s ! j) = Running
      then (case fst (job_settle cfg j r s) of
              None \<Rightarrow>
                onSessionComplete cfg drv
                  (queue_next j (upd_job j (\<lambda>jb. jb\<lparr>phase := Succeeded\<rparr>) s1))
            | Some err \<Rightarrow>
                onSessionFail cfg drv
                  (queue_next j (upd_job j (\<lambda>jb. jb\<lparr>phase := Errored\<rparr>) s1)))
      else s1)"

definition queue_timeout :: "config \<Rightarrow> driver \<Rightarrow> nat \<Rightarrow> service \<Rightarrow> service" where
  "queue_timeout cfg drv j s =
     onTimedOut cfg drv j (upd_job j (\<lambda>jb. jb\<lparr>phase := TimedOut\<rparr>) s)"

fun step :: "config \<Rightarrow> driver \<Rightarrow> event \<Rightarrow> service \<Rightarrow> service" where
  "step cfg drv (Request strained code thrown) s =
     snd (runFunction cfg (\<lambda>c. thrown) strained code s)"
| "step cfg drv (AutoUpdate strained) s = autoUpdateQueue cfg strained s"
| "step cfg drv (Start j) s = queue_start cfg drv j s"
| "step cfg drv (HandlerOpensPage j) s = handler_opens_page j s"
| "step cfg drv (Settle j r) s = queue_settle cfg drv j r s"
| "step cfg drv (Timeout j) s = queue_timeout cfg drv j s"
| "step cfg drv (Disconnect j) s = req_on_close cfg j s"
| "step cfg drv (Refresh p) s = refreshChromeInstance cfg drv p s"
| "step cfg drv (GetChrome flags) s =
     (case getChrome drv flags s of Inl err \<Rightarrow> s | Inr (p, s1) \<Rightarrow> s1)"

fun enabled :: "event \<Rightarrow> service \<Rightarrow> bool" where
  "enabled (Request strained code thrown) s = True"
| "enabled (AutoUpdate strained) s = True"
| "enabled (Start j) s = (j < length (jobs s) \<and> phase (jobs s ! j) = Queued)"
| "enabled (HandlerOpensPage j) s =
     (j < length (jobs s) \<and> browser (jobs s ! j) \<noteq> None \<and> \<not> settled (jobs s ! j))"
| "enabled (Settle j r) s =
     (j < length (jobs s) \<and> browser (jobs s ! j) \<noteq> None \<and> \<not> settled (jobs s ! j))"
| "enabled (Timeout j) s = (j < length (jobs s) \<and> phase (jobs s ! j) = Running)"
| "enabled (Disconnect j) s = (j < length (jobs s))"
| "enabled (Refresh p) s = (p \<in> set (chromeSwarm s))"
| "enabled (GetChrome flags) s = True"

inductive reachable :: "config \<Rightarrow> driver \<Rightarrow> service \<Rightarrow> bool" for cfg drv where
  init: "reachable cfg drv (ChromeService cfg drv)"
| step: "reachable cfg drv s \<Longrightarrow> enabled e s \<Longrightarrow> reachable cfg drv (step cfg drv e s)"

text \<open>The browsers that the launches in the swarm resolved with.\<close>

fun pool_handles :: "(string + handle) list \<Rightarrow> handle list" where
  "pool_handles [] = []"
| "pool_handles (Inl e # ps) = pool_handles ps"
| "pool_handles (Inr h # ps) = h # pool_handles ps"

text \<open>
  The ownership invariant: the handles \<open>pool\<close> of the swarm are pairwise different and name
  launched browsers; a handle that some job is bound to names a launched browser and is
  not in the swarm; and no two jobs are bound to the same handle. \<open>bound\<close> lists
  \<^verbatim>\<open>job.browser\<close> of every job, \<open>n\<close> is the number of browsers launched.
\<close>

definition unshared :: "handle option list \<Rightarrow> bool" where
  "unshared bound =
     (\<forall>i<length bound. \<forall>j<length bound.
        bound ! i = bound ! j \<and> bound ! i \<noteq> None \<longrightarrow> i = j)"

definition excl :: "handle list \<Rightarrow> handle option list \<Rightarrow> nat \<Rightarrow> bool" where
  "excl pool bound n =
     (distinct pool \<and> (\<forall>h\<in>set pool. h < n) \<and>
      (\<forall>h. Some h \<in> set bound \<longrightarrow> h < n \<and> h \<notin> set pool) \<and>
      unshared bound)"

definition exclusive :: "service \<Rightarrow> bool" where
  "exclusive s = excl (pool_handles (chromeSwarm s)) (map browser (jobs s)) (length (browsers s))"


section \<open>Example configurations\<close>

definition empty_service :: service where
  "empty_service =
     \<lparr>chromeSwarm = [], queue = [], concurrency = Finite 1, jobs = [],
      currentStat = \<lparr>successful = 0, error = 0, timedout = 0, queued = 0\<rparr>,
      timeoutHook_calls = 0, queueHook_calls = 0, browsers = [], launches = 0\<rparr>"

text \<open>A driver whose first \<open>m\<close> launches fail, and one that always starts a browser.\<close>

definition flaky_driver :: "nat \<Rightarrow> driver" where
  "flaky_driver m n as = (if n < m then LaunchFailed ''no chrome'' else Launched)"

definition good_driver :: driver where
  "good_driver n as = Launched"

definition example_config :: "bool \<Rightarrow> config" where
  "example_config ka =
     \<lparr>maxConcurrentSessions = 2, connectionTimeout = 30000, maxQueueLength = 2,
      prebootChrome = False, autoQueue = True, keepAlive = ka,
      chromeRefreshTime = 1800000, maxChromeRefreshRetries = 5\<rparr>"

text \<open>
  The states of a short run under \<open>example_config\<close>: one request is admitted and its job
  starts on a freshly launched browser, with its page open (\<open>running_job\<close>); then the
  client disconnects (\<open>after_disconnect\<close>), or the handler resolves (\<open>after_success\<close>), or
  the handler opens a second page and resolves (\<open>after_extra_page\<close>).
\<close>

definition running_job :: service where
  "running_job =
     empty_service\<lparr>jobs := [new_job\<lparr>browser := Some 0, page := Some 0, phase := Running\<rparr>],
       queue := [0], concurrency := Finite 2,
       browsers := [(fresh_chrome (launch_args []))\<lparr>open_pages := [0], next_page := 1\<rparr>],
       launches := 1\<rparr>"

definition after_disconnect :: service where
  "after_disconnect = step (example_config True) good_driver (Disconnect 0) running_job"

definition text_result :: handler_result where
  "text_result = Resolves (Value ''done'') (Some ''text/plain'')"

definition after_success :: service where
  "after_success = step (example_config True) good_driver (Settle 0 text_result) running_job"

definition after_extra_page :: service where
  "after_extra_page =
     step (example_config True) good_driver (Settle 0 text_result)
       (step (example_config True) good_driver (HandlerOpensPage 0) running_job)"

text \<open>
  A \<^verbatim>\<open>vm.run\<close> that binds every code, and one that binds none; a configuration with a
  maximum of \<open>0\<close> concurrent sessions and \<^verbatim>\<open>autoQueue\<close> off.
\<close>

definition good_vm :: vm where
  "good_vm c = None"

definition failing_vm :: vm where
  "failing_vm c = Some (Rejection ''Unexpected token'')"


text \<open>
  Rejections of the handler of that job: after the job timed out (\<open>late_rejection\<close>), with
  \<^verbatim>\<open>undefined\<close> (\<open>nullish_rejection\<close>), and after the client disconnected
  (\<open>pooled_rejection\<close>), all under keep-alive.
\<close>

definition after_timeout :: service where
  "after_timeout = step (example_config True) good_driver (Timeout 0) running_job"

definition late_rejection :: service where
  "late_rejection =
     step (example_config True) good_driver (Settle 0 (Rejects (Thrown (Rejection ''boom''))))
       after_timeout"

definition nullish_rejection :: service where
  "nullish_rejection =
     step (example_config True) good_driver (Settle 0 (Rejects Nullish)) running_job"

definition pooled_rejection :: service where
  "pooled_rejection =
     step (example_config True) good_driver (Settle 0 (Rejects (Thrown (Rejection ''boom''))))
       after_disconnect"

text \<open>
  Under keep-alive, after the client disconnected: a second request is admitted and its
  job starts (\<open>shared_handle\<close>), or the handler of the first job resolves
  (\<open>pooled_twice\<close>). Without keep-alive: the client disconnects from the running job
  (\<open>closed_while_running\<close>). With preboot and without keep-alive: a refresh of the first
  prebooted browser (\<open>refreshed_pool\<close>); and two jobs started on the prebooted browsers,
  of which the first has succeeded (\<open>busy_pool\<close>).
\<close>

definition shared_handle :: service where
  "shared_handle =
     step (example_config True) good_driver (Start 1)
       (step (example_config True) good_driver (Request False ''x'' None) after_disconnect)"

definition pooled_twice :: service where
  "pooled_twice = step (example_config True) good_driver (Settle 0 text_result) after_disconnect"

definition closed_while_running :: service where
  "closed_while_running = step (example_config False) good_driver (Disconnect 0) running_job"

definition preboot_config :: config where
  "preboot_config = (example_config False)\<lparr>prebootChrome := True\<rparr>"

definition refreshed_pool :: service where
  "refreshed_pool =
     step preboot_config good_driver (Refresh (Inr 0)) (ChromeService preboot_config good_driver)"

definition two_jobs :: service where
  "two_jobs =
     step preboot_config good_driver (Start 1)
       (step preboot_config good_driver (Start 0)
          (step preboot_config good_driver (Request False ''x'' None)
             (step preboot_config good_driver (Request False ''x'' None)
                (ChromeService preboot_config good_driver))))"

definition busy_pool :: service where
  "busy_pool = step preboot_config good_driver (Settle 0 text_result) two_jobs"

section \<open>Launching with retries\<close>

lemma launchChrome_success_now:
  assumes "drv (launches s) (launch_args flags) = Launched"
  shows "launchChrome drv flags retries s =
           (Inr (length (browsers s)),
            s\<lparr>launches := Suc (launches s),
              browsers := browsers s @ [fresh_chrome (launch_args flags)]\<rparr>)"
  using assms by (subst launchChrome.simps) (simp add: puppeteer_launch_def)

lemma launchChrome_fail_retry:
  assumes "drv (launches s) (launch_args flags) = LaunchFailed e" and "0 < retries"
  shows "launchChrome drv flags retries s =
           launchChrome drv flags (retries - 1) (s\<lparr>launches := Suc (launches s)\<rparr>)"
  using assms by (subst launchChrome.simps) (simp add: puppeteer_launch_def)

lemma launchChrome_fail_exhausted:
  assumes "drv (launches s) (launch_args flags) = LaunchFailed e" and "\<not> 0 < retries"
  shows "launchChrome drv flags retries s = (Inl e, s\<lparr>launches := Suc (launches s)\<rparr>)"
  using assms by (subst launchChrome.simps) (simp add: puppeteer_launch_def)

lemma launchChrome_first_success:
  assumes "k \<le> nat retries"
    and "\<forall>i<k. \<exists>e. drv (launches s + i) (launch_args flags) = LaunchFailed e"
    and "drv (launches s + k) (launch_args flags) = Launched"
  shows "launchChrome drv flags retries s =
           (Inr (length (browsers s)),
            s\<lparr>launches := launches s + k + 1,
              browsers := browsers s @ [fresh_chrome (launch_args flags)]\<rparr>)"
  using assms
proof (induction k arbitrary: retries s)
  case 0
  then show ?case by (simp add: launchChrome_success_now)
next
  case (Suc k)
  from Suc.prems(2) obtain e where e: "drv (launches s) (launch_args flags) = LaunchFailed e"
    by force
  from Suc.prems(1) have pos: "0 < retries" by simp
  let ?s1 = "s\<lparr>launches := Suc (launches s)\<rparr>"
  have k: "k \<le> nat (retries - 1)" using Suc.prems(1) by simp
  have fails: "\<forall>i<k. \<exists>e. drv (launches ?s1 + i) (launch_args flags) = LaunchFailed e"
  proof (intro allI impI)
    fix i assume "i < k"
    then have "Suc i < Suc k" by simp
    with Suc.prems(2) have "\<exists>e. drv (launches s + Suc i) (launch_args flags) = LaunchFailed e"
      by blast
    then show "\<exists>e. drv (launches ?s1 + i) (launch_args flags) = LaunchFailed e" by simp
  qed
  have ok: "drv (launches ?s1 + k) (launch_args flags) = Launched"
    using Suc.prems(3) by simp
  show ?case
    using Suc.IH [OF k fails ok] launchChrome_fail_retry [of drv s flags e retries] e pos
    by simp
qed

lemma launchChrome_all_fail:
  assumes "n = nat retries"
    and "\<forall>i\<le>n. \<exists>e. drv (launches s + i) (launch_args flags) = LaunchFailed e"
  shows "\<exists>e. drv (launches s + n) (launch_args flags) = LaunchFailed e \<and>
           launchChrome drv flags retries s = (Inl e, s\<lparr>launches := launches s + n + 1\<rparr>)"
  using assms
proof (induction n arbitrary: retries s)
  case 0
  from "0.prems"(2) obtain e where e: "drv (launches s) (launch_args flags) = LaunchFailed e"
    by force
  from "0.prems"(1) have "\<not> 0 < retries" by simp
  with launchChrome_fail_exhausted [of drv s flags e retries] e show ?case by simp
next
  case (Suc n)
  from Suc.prems(2) obtain e where e: "drv (launches s) (launch_args flags) = LaunchFailed e"
    by force
  from Suc.prems(1) have pos: "0 < retries" by simp
  let ?s1 = "s\<lparr>launches := Suc (launches s)\<rparr>"
  have n: "n = nat (retries - 1)" using Suc.prems(1) by simp
  have fails: "\<forall>i\<le>n. \<exists>e. drv (launches ?s1 + i) (launch_args flags) = LaunchFailed e"
  proof (intro allI impI)
    fix i assume "i \<le> n"
    then have "Suc i \<le> Suc n" by simp
    with Suc.prems(2) have "\<exists>e. drv (launches s + Suc i) (launch_args flags) = LaunchFailed e"
      by blast
    then show "\<exists>e. drv (launches ?s1 + i) (launch_args flags) = LaunchFailed e" by simp
  qed
  show ?case
    using Suc.IH [OF n fails] launchChrome_fail_retry [of drv s flags e retries] e pos
    by simp
qed

text \<open>
  Claim C6. \<^verbatim>\<open>launchChrome(flags, retries)\<close> calls the driver again after each failed
  launch while the count, decremented by one per attempt, is positive. If the first
  \<open>k\<close> attempts fail and the next one starts a browser, with \<open>k\<close> at most the number of
  retries, the call resolves with that browser after exactly \<open>k + 1\<close> driver calls: no
  further attempt is made, also when \<open>k\<close> is the last retry allowed. If the first attempt
  and all the retries fail, the call rejects with the error of the last attempt after
  exactly \<open>retries + 1\<close> driver calls.
\<close>

theorem launchChrome_retry_bound:
  "(k \<le> nat retries \<and>
    (\<forall>i<k. \<exists>e. drv (launches s + i) (launch_args flags) = LaunchFailed e) \<and>
    drv (launches s + k) (launch_args flags) = Launched
    \<longrightarrow> launchChrome drv flags retries s =
          (Inr (length (browsers s)),
           s\<lparr>launches := launches s + k + 1,
             browsers := browsers s @ [fresh_chrome (launch_args flags)]\<rparr>)) \<and>
   ((\<forall>i\<le>nat retries. \<exists>e. drv (launches s + i) (launch_args flags) = LaunchFailed e)
    \<longrightarrow> (\<exists>e. drv (launches s + nat retries) (launch_args flags) = LaunchFailed e \<and>
          launchChrome drv flags retries s =
            (Inl e, s\<lparr>launches := launches s + nat retries + 1\<rparr>)))"
  using launchChrome_first_success [of k retries drv s flags]
    launchChrome_all_fail [of "nat retries" retries drv s flags]
  by blast

theorem launchChrome_retry_bound_witness:
  "launchChrome (flaky_driver 1) [] 1 empty_service =
     (Inr 0, empty_service\<lparr>launches := 2, browsers := [fresh_chrome (launch_args [])]\<rparr>) \<and>
   launchChrome (flaky_driver 2) [] 1 empty_service =
     (Inl ''no chrome'', empty_service\<lparr>launches := 2\<rparr>)"
proof -
  have a: "(1::nat) \<le> nat 1" by simp
  have b: "\<forall>i<1::nat. \<exists>e. flaky_driver 1 (launches empty_service + i) (launch_args []) = LaunchFailed e"
    by (simp add: flaky_driver_def empty_service_def)
  have c: "flaky_driver 1 (launches empty_service + 1) (launch_args []) = Launched"
    by (simp add: flaky_driver_def empty_service_def)
  have d: "\<forall>i\<le>nat 1. \<exists>e. flaky_driver 2 (launches empty_service + i) (launch_args []) = LaunchFailed e"
    by (auto simp add: flaky_driver_def empty_service_def)
  from launchChrome_retry_bound [of 1 1 "flaky_driver 1" empty_service "[]"] a b c
  have first: "launchChrome (flaky_driver 1) [] 1 empty_service =
     (Inr 0, empty_service\<lparr>launches := 2, browsers := [fresh_chrome (launch_args [])]\<rparr>)"
    by (simp add: empty_service_def)
  from launchChrome_retry_bound [of 1 1 "flaky_driver 2" empty_service "[]"] d
  have second: "launchChrome (flaky_driver 2) [] 1 empty_service =
     (Inl ''no chrome'', empty_service\<lparr>launches := 2\<rparr>)"
    by (auto simp add: empty_service_def flaky_driver_def)
  from first second show ?thesis by simp
qed

lemma launchChrome_cases:
  obtains (started) n where
      "launchChrome drv flags retries s =
         (Inr (length (browsers s)),
          s\<lparr>launches := launches s + Suc n,
            browsers := browsers s @ [fresh_chrome (launch_args flags)]\<rparr>)"
  | (failed) n e where
      "launchChrome drv flags retries s = (Inl e, s\<lparr>launches := launches s + Suc n\<rparr>)"
proof -
  have "(\<exists>n. launchChrome drv flags retries s =
           (Inr (length (browsers s)),
            s\<lparr>launches := launches s + Suc n,
              browsers := browsers s @ [fresh_chrome (launch_args flags)]\<rparr>)) \<or>
        (\<exists>n e. launchChrome drv flags retries s = (Inl e, s\<lparr>launches := launches s + Suc n\<rparr>))"
  proof (induction "nat retries" arbitrary: retries s)
    case 0
    show ?case
    proof (cases "drv (launches s) (launch_args flags)")
      case Launched
      from launchChrome_success_now [of drv s flags retries] Launched
      have "launchChrome drv flags retries s =
           (Inr (length (browsers s)),
            s\<lparr>launches := launches s + Suc 0,
              browsers := browsers s @ [fresh_chrome (launch_args flags)]\<rparr>)" by simp
      then show ?thesis by blast
    next
      case (LaunchFailed e)
      from 0 have "\<not> 0 < retries" by simp
      with launchChrome_fail_exhausted [of drv s flags e retries] LaunchFailed
      have "launchChrome drv flags retries s = (Inl e, s\<lparr>launches := launches s + Suc 0\<rparr>)"
        by simp
      then show ?thesis by blast
    qed
  next
    case (Suc m)
    show ?case
    proof (cases "drv (launches s) (launch_args flags)")
      case Launched
      from launchChrome_success_now [of drv s flags retries] Launched
      have "launchChrome drv flags retries s =
           (Inr (length (browsers s)),
            s\<lparr>launches := launches s + Suc 0,
              browsers := browsers s @ [fresh_chrome (launch_args flags)]\<rparr>)" by simp
      then show ?thesis by blast
    next
      case (LaunchFailed e)
      let ?s1 = "s\<lparr>launches := Suc (launches s)\<rparr>"
      from Suc(2) have pos: "0 < retries" and m: "m = nat (retries - 1)" by simp_all
      from launchChrome_fail_retry [of drv s flags e retries] LaunchFailed pos
      have eq: "launchChrome drv flags retries s = launchChrome drv flags (retries - 1) ?s1"
        by simp
      from Suc(1) [OF m, of ?s1] show ?thesis
      proof
        assume "\<exists>n. launchChrome drv flags (retries - 1) ?s1 =
           (Inr (length (browsers ?s1)),
            ?s1\<lparr>launches := launches ?s1 + Suc n,
              browsers := browsers ?s1 @ [fresh_chrome (launch_args flags)]\<rparr>)"
        then obtain n where "launchChrome drv flags (retries - 1) ?s1 =
           (Inr (length (browsers ?s1)),
            ?s1\<lparr>launches := launches ?s1 + Suc n,
              browsers := browsers ?s1 @ [fresh_chrome (launch_args flags)]\<rparr>)" ..
        with eq have "launchChrome drv flags retries s =
           (Inr (length (browsers s)),
            s\<lparr>launches := launches s + Suc (Suc n),
              browsers := browsers s @ [fresh_chrome (launch_args flags)]\<rparr>)" by simp
        then show ?thesis by blast
      next
        assume "\<exists>n e. launchChrome drv flags (retries - 1) ?s1 =
            (Inl e, ?s1\<lparr>launches := launches ?s1 + Suc n\<rparr>)"
        then obtain n e' where "launchChrome drv flags (retries - 1) ?s1 =
            (Inl e', ?s1\<lparr>launches := launches ?s1 + Suc n\<rparr>)" by blast
        with eq have "launchChrome drv flags retries s =
            (Inl e', s\<lparr>launches := launches s + Suc (Suc n)\<rparr>)" by simp
        then show ?thesis by blast
      qed
    qed
  qed
  with started failed show thesis by blast
qed

lemma push_launch_cases:
  obtains (started) n where
      "push_launch drv s =
         s\<lparr>chromeSwarm := chromeSwarm s @ [Inr (length (browsers s))],
           launches := launches s + Suc n,
           browsers := browsers s @ [fresh_chrome (launch_args [])]\<rparr>"
  | (failed) n e where
      "push_launch drv s =
         s\<lparr>chromeSwarm := chromeSwarm s @ [Inl e], launches := launches s + Suc n\<rparr>"
proof (cases rule: launchChrome_cases [of drv "[]" 1 s])
  case (started n)
  then have "push_launch drv s =
         s\<lparr>chromeSwarm := chromeSwarm s @ [Inr (length (browsers s))],
           launches := launches s + Suc n,
           browsers := browsers s @ [fresh_chrome (launch_args [])]\<rparr>"
    by (simp add: push_launch_def)
  then show ?thesis by (rule that(1))
next
  case (failed n e)
  then have "push_launch drv s =
         s\<lparr>chromeSwarm := chromeSwarm s @ [Inl e], launches := launches s + Suc n\<rparr>"
    by (simp add: push_launch_def)
  then show ?thesis by (rule that(2))
qed

lemma fold_page_close_shape:
  "\<exists>bs. fold (page_close b) ps s = s\<lparr>browsers := bs\<rparr> \<and> length bs = length (browsers s)"
proof (induction ps arbitrary: s)
  case Nil
  have "s = s\<lparr>browsers := browsers s\<rparr>" by simp
  then show ?case by (metis fold_simps(1))
next
  case (Cons p ps)
  let ?s1 = "page_close b p s"
  from Cons [of ?s1] obtain bs where
    "fold (page_close b) ps ?s1 = ?s1\<lparr>browsers := bs\<rparr>" "length bs = length (browsers ?s1)"
    by blast
  then have "fold (page_close b) (p # ps) s = s\<lparr>browsers := bs\<rparr> \<and> length bs = length (browsers s)"
    by (simp add: page_close_def upd_browser_def)
  then show ?case by blast
qed

lemma reuseChromeInstance_shape:
  "\<exists>bs. reuseChromeInstance b s = s\<lparr>chromeSwarm := chromeSwarm s @ [Inr b], browsers := bs\<rparr> \<and>
        length bs = length (browsers s)"
proof -
  from fold_page_close_shape [of b "pages b s" s] obtain bs where
    "fold (page_close b) (pages b s) s = s\<lparr>browsers := bs\<rparr>" "length bs = length (browsers s)"
    by blast
  then have "reuseChromeInstance b s = s\<lparr>chromeSwarm := chromeSwarm s @ [Inr b], browsers := bs\<rparr> \<and>
        length bs = length (browsers s)"
    by (simp add: reuseChromeInstance_def Let_def)
  then show ?thesis by blast
qed

subsection \<open>What the operations leave alone\<close>

lemma launchChrome_frame:
  "concurrency (snd (launchChrome drv flags retries s)) = concurrency s"
  "currentStat (snd (launchChrome drv flags retries s)) = currentStat s"
  "chromeSwarm (snd (launchChrome drv flags retries s)) = chromeSwarm s"
  "jobs (snd (launchChrome drv flags retries s)) = jobs s"
  "queue (snd (launchChrome drv flags retries s)) = queue s"
  by (cases rule: launchChrome_cases [of drv flags retries s]; simp)+

lemma push_launch_frame:
  "concurrency (push_launch drv s) = concurrency s"
  "currentStat (push_launch drv s) = currentStat s"
  "jobs (push_launch drv s) = jobs s"
  "queue (push_launch drv s) = queue s"
  by (cases rule: push_launch_cases [of drv s]; simp)+

lemma reuseChromeInstance_frame:
  "concurrency (reuseChromeInstance b s) = concurrency s"
  "currentStat (reuseChromeInstance b s) = currentStat s"
  "jobs (reuseChromeInstance b s) = jobs s"
  "queue (reuseChromeInstance b s) = queue s"
  "chromeSwarm (reuseChromeInstance b s) = chromeSwarm s @ [Inr b]"
  "length (browsers (reuseChromeInstance b s)) = length (browsers s)"
  using reuseChromeInstance_shape [of b s] by auto

lemma browser_ops_frame:
  "concurrency (upd_browser h f s) = concurrency s"
  "currentStat (upd_browser h f s) = currentStat s"
  "jobs (upd_browser h f s) = jobs s"
  "queue (upd_browser h f s) = queue s"
  "chromeSwarm (upd_browser h f s) = chromeSwarm s"
  "length (browsers (upd_browser h f s)) = length (browsers s)"
  by (simp_all add: upd_browser_def)

lemma upd_job_frame:
  "concurrency (upd_job j g s) = concurrency s"
  "currentStat (upd_job j g s) = currentStat s"
  "queue (upd_job j g s) = queue s"
  "chromeSwarm (upd_job j g s) = chromeSwarm s"
  "browsers (upd_job j g s) = browsers s"
  "length (jobs (upd_job j g s)) = length (jobs s)"
  by (simp_all add: upd_job_def)

lemma addToChromeSwarm_frame:
  "concurrency (addToChromeSwarm cfg drv s) = concurrency s"
  "currentStat (addToChromeSwarm cfg drv s) = currentStat s"
  "jobs (addToChromeSwarm cfg drv s) = jobs s"
  "queue (addToChromeSwarm cfg drv s) = queue s"
  by (simp_all add: addToChromeSwarm_def push_launch_frame)

lemma job_close_frame:
  "concurrency (job_close cfg j s) = concurrency s"
  "currentStat (job_close cfg j s) = currentStat s"
  "queue (job_close cfg j s) = queue s"
  by (simp_all add: job_close_def Let_def reuseChromeInstance_frame browser_close_def
      browser_ops_frame upd_job_frame split: option.splits)


























text \<open>
  Claim C4 fails for a request whose code \<^verbatim>\<open>vm.run\<close> cannot bind: with the queue shorter
  than the maximum the request passes the capacity check, \<^verbatim>\<open>vm.run(code)\<close> throws, and
  no job is pushed.
\<close>

theorem runFunction_admission_counterexample:
  "int (length (queue empty_service)) < maxQueueLength (example_config False) \<and>
   fst (runFunction (example_config False) failing_vm False ''}'' empty_service) =
     BindFailed (Rejection ''Unexpected token'') \<and>
   queue (snd (runFunction (example_config False) failing_vm False ''}'' empty_service)) = [] \<and>
   jobs (snd (runFunction (example_config False) failing_vm False ''}'' empty_service)) = []"
  by (simp add: runFunction_def Let_def example_config_def empty_service_def failing_vm_def)

text \<open>
  Claim C4, amended. When the queue's length has reached the configured maximum queue
  length, \<^verbatim>\<open>runFunction\<close> answers with the capacity-exceeded rejection and leaves the whole
  service state as it was: no job is pushed and no counter moves. When the queue is
  shorter than the maximum, the request is not rejected for capacity, and the \<^verbatim>\<open>queued\<close>
  counter goes up by one exactly when the queue's length has reached the (just updated)
  concurrency limit. If \<^verbatim>\<open>vm.run\<close> binds the code, the job is then appended to the queue, so
  the request is either queued or run; if \<^verbatim>\<open>vm.run\<close> throws, \<^verbatim>\<open>runFunction\<close> ends with that
  error and neither a job nor the queue is touched.
\<close>

theorem runFunction_admission:
  "(int (length (queue s)) \<ge> maxQueueLength cfg \<longrightarrow>
      runFunction cfg vm_run isMachineStrained code s =
        (Rejected (rejectReq ''Too Many Requests'' new_response), s)) \<and>
   (int (length (queue s)) < maxQueueLength cfg \<longrightarrow>
      (\<forall>r. fst (runFunction cfg vm_run isMachineStrained code s) \<noteq> Rejected r) \<and>
      queued (currentStat (snd (runFunction cfg vm_run isMachineStrained code s))) =
        (if \<not> below (int (length (queue s)))
                 (concurrency (snd (runFunction cfg vm_run isMachineStrained code s)))
         then queued (currentStat s) + 1 else queued (currentStat s)) \<and>
      (vm_run code = None \<longrightarrow>
         fst (runFunction cfg vm_run isMachineStrained code s) = Pushed (length (jobs s)) \<and>
         queue (snd (runFunction cfg vm_run isMachineStrained code s)) =
           queue s @ [length (jobs s)] \<and>
         jobs (snd (runFunction cfg vm_run isMachineStrained code s)) = jobs s @ [new_job]) \<and>
      (\<forall>err. vm_run code = Some err \<longrightarrow>
         fst (runFunction cfg vm_run isMachineStrained code s) = BindFailed err \<and>
         queue (snd (runFunction cfg vm_run isMachineStrained code s)) = queue s \<and>
         jobs (snd (runFunction cfg vm_run isMachineStrained code s)) = jobs s))"
  by (cases "vm_run code") (simp_all add: runFunction_def Let_def onQueued_def)

theorem runFunction_admission_witness:
  "runFunction ((example_config False)\<lparr>maxQueueLength := 1\<rparr>) good_vm False ''x''
      (empty_service\<lparr>jobs := [new_job], queue := [0]\<rparr>) =
     (Rejected (rejectReq ''Too Many Requests'' new_response),
      empty_service\<lparr>jobs := [new_job], queue := [0]\<rparr>) \<and>
   fst (runFunction ((example_config False)\<lparr>maxQueueLength := 1\<rparr>) good_vm False ''x''
      empty_service) = Pushed 0 \<and>
   queue (snd (runFunction ((example_config False)\<lparr>maxQueueLength := 1\<rparr>) good_vm False ''x''
      empty_service)) = [0] \<and>
   fst (runFunction ((example_config False)\<lparr>maxQueueLength := 1\<rparr>) failing_vm False ''}''
      empty_service) = BindFailed (Rejection ''Unexpected token'')"
  using runFunction_admission [where s = "empty_service\<lparr>jobs := [new_job], queue := [0]\<rparr>"
      and cfg = "(example_config False)\<lparr>maxQueueLength := 1\<rparr>" and isMachineStrained = False
      and vm_run = good_vm and code = "''x''"]
    runFunction_admission [where s = empty_service
      and cfg = "(example_config False)\<lparr>maxQueueLength := 1\<rparr>" and isMachineStrained = False
      and vm_run = good_vm and code = "''x''"]
    runFunction_admission [where s = empty_service
      and cfg = "(example_config False)\<lparr>maxQueueLength := 1\<rparr>" and isMachineStrained = False
      and vm_run = failing_vm and code = "''}''"]
  by (simp add: example_config_def empty_service_def good_vm_def failing_vm_def)

text \<open>
  Claim C9. When a job's timeout fires, \<^verbatim>\<open>onTimedOut\<close> adds one to the \<^verbatim>\<open>timedout\<close>
  counter and, through \<^verbatim>\<open>onSessionComplete\<close>, one to the \<^verbatim>\<open>successful\<close> counter; the
  other two counters are left alone.
\<close>

theorem onTimedOut_counts_success:
  "currentStat (onTimedOut cfg drv j s) =
     (currentStat s)\<lparr>successful := successful (currentStat s) + 1,
                     timedout := timedout (currentStat s) + 1\<rparr>"
  by (simp add: onTimedOut_def Let_def queue_next_def onSessionComplete_def
      addToChromeSwarm_frame job_close_frame)

theorem onTimedOut_counts_success_witness:
  "currentStat (onTimedOut (example_config False) good_driver 0
      (empty_service\<lparr>jobs := [new_job\<lparr>browser := Some 0\<rparr>], queue := [0],
         browsers := [fresh_chrome []]\<rparr>)) =
     \<lparr>successful = 1, error = 0, timedout = 1, queued = 0\<rparr>"
  using onTimedOut_counts_success [where cfg = "example_config False" and drv = good_driver
      and j = 0 and s = "empty_service\<lparr>jobs := [new_job\<lparr>browser := Some 0\<rparr>], queue := [0],
         browsers := [fresh_chrome []]\<rparr>"]
  by (simp add: empty_service_def)

text \<open>
  Claim C10. \<^verbatim>\<open>getChrome\<close> called without \<^verbatim>\<open>flags\<close> throws a \<^verbatim>\<open>TypeError\<close> from reading
  \<^verbatim>\<open>.length\<close> of \<^verbatim>\<open>undefined\<close>. Called with an array it always returns: the first launch
  of the swarm, taken out of the swarm without any driver call, when the array is empty
  and the swarm is not; a fresh \<^verbatim>\<open>launchChrome(flags)\<close>, which calls the driver and
  leaves the swarm as it is, otherwise.
\<close>

theorem getChrome_flags:
  "getChrome drv Undefined s = Inl (TypeError ''length'') \<and>
   (\<exists>r. getChrome drv (Array fl) s = Inr r) \<and>
   (fl = [] \<and> chromeSwarm s \<noteq> [] \<longrightarrow>
      getChrome drv (Array fl) s = Inr (hd (chromeSwarm s), s\<lparr>chromeSwarm := tl (chromeSwarm s)\<rparr>)) \<and>
   (\<not> (fl = [] \<and> chromeSwarm s \<noteq> []) \<longrightarrow>
      getChrome drv (Array fl) s = Inr (launchChrome drv fl 1 s) \<and>
      chromeSwarm (snd (launchChrome drv fl 1 s)) = chromeSwarm s \<and>
      launches s < launches (snd (launchChrome drv fl 1 s)))"
proof -
  have "launches s < launches (snd (launchChrome drv fl 1 s))"
    by (cases rule: launchChrome_cases [of drv fl 1 s]) simp_all
  then show ?thesis
    by (cases "chromeSwarm s") (simp_all add: getChrome_def launchChrome_frame)
qed

theorem getChrome_flags_witness:
  "getChrome good_driver Undefined (empty_service\<lparr>chromeSwarm := [Inr 0]\<rparr>) = Inl (TypeError ''length'') \<and>
   getChrome good_driver (Array []) (empty_service\<lparr>chromeSwarm := [Inr 0]\<rparr>) = Inr (Inr 0, empty_service) \<and>
   getChrome good_driver (Array [''--headless'']) (empty_service\<lparr>chromeSwarm := [Inr 0]\<rparr>) =
     Inr (launchChrome good_driver [''--headless''] 1 (empty_service\<lparr>chromeSwarm := [Inr 0]\<rparr>))"
  using getChrome_flags [where drv = good_driver and s = "empty_service\<lparr>chromeSwarm := [Inr 0]\<rparr>"
      and fl = "[]"]
    getChrome_flags [where drv = good_driver and s = "empty_service\<lparr>chromeSwarm := [Inr 0]\<rparr>"
      and fl = "[''--headless'']"]
  by (simp add: empty_service_def)

subsection \<open>A short run of the service\<close>

lemma running_job_reachable:
  "running_job = step (example_config ka) good_driver (Start 0)
     (step (example_config ka) good_driver (Request False ''x'' None)
        (ChromeService (example_config ka) good_driver))"
  by (simp add: running_job_def empty_service_def example_config_def ChromeService_def
      runFunction_def Let_def queue_start_def job_start_def upd_job_def new_job_def
      launchChrome_success_now good_driver_def newPage_def upd_browser_def fresh_chrome_def)

lemmas op_defs =
  empty_service_def example_config_def runFunction_def Let_def
  queue_start_def queue_settle_def queue_timeout_def job_start_def job_settle_def job_then_def
  job_catch_def job_close_def req_on_close_def reuseChromeInstance_def onTimedOut_def
  onSessionComplete_def onSessionFail_def addToChromeSwarm_def onQueued_def queue_next_def
  refreshChromeInstance_def push_launch_def handler_opens_page_def
  upd_job_def upd_browser_def new_job_def new_response_def newPage_def pages_def page_close_def
  browser_close_def fresh_chrome_def launch_args_def res_send_def res_status_def res_type_def
  body_text_def headersSent_def closed_def message_def launchChrome_success_now good_driver_def
  with_res_def express_type_def express_send_def after_catch_def thrown_message_def

lemmas eval_defs = op_defs ChromeService_def

lemma reachable_running_job:
  "reachable (example_config ka) good_driver running_job"
proof -
  let ?cfg = "example_config ka"
  let ?s0 = "ChromeService ?cfg good_driver"
  let ?s1 = "step ?cfg good_driver (Request False ''x'' None) ?s0"
  have r1: "reachable ?cfg good_driver ?s1"
    by (rule reachable.step [OF reachable.init]) simp
  have "enabled (Start 0) ?s1" by (simp add: eval_defs)
  with r1 have "reachable ?cfg good_driver (step ?cfg good_driver (Start 0) ?s1)"
    by (rule reachable.step)
  then show ?thesis by (simp only: running_job_reachable [symmetric])
qed

lemma after_disconnect_eq:
  "after_disconnect =
     running_job\<lparr>chromeSwarm := [Inr 0],
       browsers := [(fresh_chrome (launch_args []))\<lparr>open_pages := [], next_page := 1\<rparr>]\<rparr>"
  by (simp add: after_disconnect_def running_job_def eval_defs)

lemma reachable_after_disconnect:
  "reachable (example_config True) good_driver after_disconnect"
proof -
  have "enabled (Disconnect 0) running_job" by (simp add: running_job_def eval_defs)
  with reachable_running_job [of True] show ?thesis
    unfolding after_disconnect_def by (rule reachable.step)
qed

lemma reachable_after_timeout:
  "reachable (example_config True) good_driver after_timeout"
proof -
  have "enabled (Timeout 0) running_job" by (simp add: running_job_def eval_defs)
  with reachable_running_job [of True] show ?thesis
    unfolding after_timeout_def by (rule reachable.step)
qed

subsection \<open>A rejecting handler\<close>

lemma push_launch_pool:
  assumes "b < length (browsers s)"
  shows "(Inr b \<in> set (chromeSwarm (push_launch drv s))) = (Inr b \<in> set (chromeSwarm s))"
  using assms by (cases rule: push_launch_cases [of drv s]) auto

lemma onSessionComplete_pool:
  assumes "b < length (browsers s)"
  shows "(Inr b \<in> set (chromeSwarm (onSessionComplete cfg drv s))) = (Inr b \<in> set (chromeSwarm s))"
  using assms by (simp add: onSessionComplete_def addToChromeSwarm_def push_launch_pool)

text \<open>
  Claim C7 fails in three ways. After a timeout the \<open>408\<close> response is sent; when the
  handler then rejects, \<^verbatim>\<open>res.status(500).send\<close> throws, no \<open>500\<close> is written and the browser,
  which \<^verbatim>\<open>job.close\<close> recycled under keep-alive, is neither closed nor out of the swarm.
  When the handler rejects with \<^verbatim>\<open>undefined\<close>, reading \<^verbatim>\<open>error.message\<close> throws: nothing is
  written and the browser is not closed. And when the client disconnected before, under
  keep-alive, the handle was returned to the swarm by the listener and is still there
  after the rejection.
\<close>

theorem handler_rejection_counterexample:
  "reachable (example_config True) good_driver after_timeout \<and>
   sent (res (jobs after_timeout ! 0)) = [(408, ''browserless function has timed-out'')] \<and>
   enabled (Settle 0 (Rejects (Thrown (Rejection ''boom'')))) after_timeout \<and>
   sent (res (jobs late_rejection ! 0)) = [(408, ''browserless function has timed-out'')] \<and>
   \<not> closed (browsers late_rejection ! 0) \<and>
   Inr 0 \<in> set (chromeSwarm late_rejection) \<and>
   reachable (example_config True) good_driver running_job \<and>
   sent (res (jobs nullish_rejection ! 0)) = [] \<and>
   \<not> closed (browsers nullish_rejection ! 0) \<and>
   reachable (example_config True) good_driver after_disconnect \<and>
   sent (res (jobs pooled_rejection ! 0)) = [(500, ''boom'')] \<and>
   Inr 0 \<in> set (chromeSwarm pooled_rejection)"
  using reachable_after_timeout reachable_after_disconnect reachable_running_job [of True]
  by (simp add: after_timeout_def late_rejection_def nullish_rejection_def pooled_rejection_def
      after_disconnect_def running_job_def eval_defs)

text \<open>
  Claim C7, amended. When the handler's promise of a job rejects with an error while no
  response has been sent for the request, the \<^verbatim>\<open>catch\<close> branch does not throw, the response
  gets the status 500 and is sent with the error's message, and the job's browser gets
  one more \<^verbatim>\<open>close()\<close> call, so it is closed. The rejection does not return the handle to
  the swarm, whatever the keep-alive setting: the swarm is left exactly as it was, and
  after the queue's event that follows, which may push a new launch, the handle is in
  the swarm exactly if it was there before.
\<close>

theorem handler_rejection_closes:
  assumes "j < length (jobs s)"
    and "browser (jobs s ! j) = Some b"
    and "page (jobs s ! j) = Some pg"
    and "b < length (browsers s)"
    and "\<not> headersSent (res (jobs s ! j))"
  shows "fst (job_settle cfg j (Rejects (Thrown e)) s) = None \<and>
         res (jobs (snd (job_settle cfg j (Rejects (Thrown e)) s)) ! j) =
           res_send (Text (message e)) (res_status 500 (res (jobs s ! j))) \<and>
         last (sent (res (jobs (snd (job_settle cfg j (Rejects (Thrown e)) s)) ! j))) =
           (500, message e) \<and>
         close_calls (browsers (snd (job_settle cfg j (Rejects (Thrown e)) s)) ! b) =
           Suc (close_calls (browsers s ! b)) \<and>
         closed (browsers (snd (job_settle cfg j (Rejects (Thrown e)) s)) ! b) \<and>
         chromeSwarm (snd (job_settle cfg j (Rejects (Thrown e)) s)) = chromeSwarm s \<and>
         (Inr b \<in> set (chromeSwarm (step cfg drv (Settle j (Rejects (Thrown e))) s))) =
           (Inr b \<in> set (chromeSwarm s))"
proof -
  let ?r = "Rejects (Thrown e)"
  let ?t = "snd (job_settle cfg j ?r s)"
  have t: "job_settle cfg j ?r s = (None, browser_close b
       (upd_job j (\<lambda>jb. jb\<lparr>res := res_send (Text (message e)) (res_status 500 (res jb))\<rparr>) s))"
    using assms(1,2,3,5)
    by (simp add: job_settle_def job_catch_def after_catch_def with_res_def express_send_def
        thrown_message_def Let_def upd_job_def headersSent_def res_status_def)
  have first: "res (jobs ?t ! j) = res_send (Text (message e)) (res_status 500 (res (jobs s ! j))) \<and>
         last (sent (res (jobs ?t ! j))) = (500, message e) \<and>
         close_calls (browsers ?t ! b) = Suc (close_calls (browsers s ! b)) \<and>
         closed (browsers ?t ! b) \<and> chromeSwarm ?t = chromeSwarm s"
    using assms(1,4)
    by (simp add: t browser_close_def upd_browser_def upd_job_def res_send_def res_status_def
        closed_def body_text_def)
  have len: "length (browsers ?t) = length (browsers s)"
    by (simp add: t browser_close_def upd_browser_def upd_job_def)
  have pool: "(Inr b \<in> set (chromeSwarm (queue_settle cfg drv j ?r s))) =
      (Inr b \<in> set (chromeSwarm s))"
  proof (cases "phase (jobs s ! j) = Running")
    case True
    let ?u = "queue_next j (upd_job j (\<lambda>jb. jb\<lparr>phase := Succeeded\<rparr>)
                (upd_job j (\<lambda>jb. jb\<lparr>settled := True\<rparr>) ?t))"
    from assms(4) len have "b < length (browsers ?u)"
      by (simp add: queue_next_def upd_job_def)
    then have "(Inr b \<in> set (chromeSwarm (onSessionComplete cfg drv ?u))) =
        (Inr b \<in> set (chromeSwarm ?u))"
      by (rule onSessionComplete_pool)
    moreover have "queue_settle cfg drv j ?r s = onSessionComplete cfg drv ?u"
      using True by (simp add: queue_settle_def Let_def t)
    moreover from first have "chromeSwarm ?u = chromeSwarm s"
      by (simp add: queue_next_def upd_job_def)
    ultimately show ?thesis by simp
  next
    case False
    with first show ?thesis by (simp add: queue_settle_def Let_def upd_job_def)
  qed
  have none: "fst (job_settle cfg j ?r s) = None" by (simp add: t)
  from none first pool show ?thesis unfolding step.simps by blast
qed

theorem handler_rejection_closes_witness:
  "fst (job_settle (example_config True) 0 (Rejects (Thrown (Rejection ''boom''))) running_job) = None \<and>
   last (sent (res (jobs (snd (job_settle (example_config True) 0
      (Rejects (Thrown (Rejection ''boom''))) running_job)) ! 0))) = (500, ''boom'') \<and>
   closed (browsers (snd (job_settle (example_config True) 0
      (Rejects (Thrown (Rejection ''boom''))) running_job)) ! 0) \<and>
   chromeSwarm (snd (job_settle (example_config True) 0
      (Rejects (Thrown (Rejection ''boom''))) running_job)) = []"
proof -
  have a: "0 < length (jobs running_job)" "browser (jobs running_job ! 0) = Some 0"
    "page (jobs running_job ! 0) = Some 0" "0 < length (browsers running_job)"
    "\<not> headersSent (res (jobs running_job ! 0))"
    by (simp_all add: running_job_def empty_service_def new_job_def new_response_def
        headersSent_def)
  have b: "chromeSwarm running_job = []" "message (Rejection ''boom'') = ''boom''"
    by (simp_all add: running_job_def empty_service_def message_def)
  from handler_rejection_closes [OF a, of "example_config True" "Rejection ''boom''" good_driver]
  have "fst (job_settle (example_config True) 0 (Rejects (Thrown (Rejection ''boom''))) running_job) = None"
    and "last (sent (res (jobs (snd (job_settle (example_config True) 0
      (Rejects (Thrown (Rejection ''boom''))) running_job)) ! 0))) = (500, message (Rejection ''boom''))"
    and "closed (browsers (snd (job_settle (example_config True) 0
      (Rejects (Thrown (Rejection ''boom''))) running_job)) ! 0)"
    and "chromeSwarm (snd (job_settle (example_config True) 0
      (Rejects (Thrown (Rejection ''boom''))) running_job)) = chromeSwarm running_job"
    by blast+
  with b show ?thesis by simp
qed

lemma reachable_shared_handle:
  "reachable (example_config True) good_driver shared_handle"
proof -
  let ?cfg = "example_config True"
  let ?s1 = "step ?cfg good_driver (Request False ''x'' None) after_disconnect"
  from reachable_after_disconnect have r1: "reachable ?cfg good_driver ?s1"
    by (rule reachable.step) simp
  have "enabled (Start 1) ?s1" by (simp add: after_disconnect_eq running_job_def eval_defs)
  with r1 show ?thesis unfolding shared_handle_def by (rule reachable.step)
qed

lemma reachable_pooled_twice:
  "reachable (example_config True) good_driver pooled_twice"
proof -
  have "enabled (Settle 0 text_result) after_disconnect"
    by (simp add: after_disconnect_eq running_job_def eval_defs)
  with reachable_after_disconnect show ?thesis
    unfolding pooled_twice_def by (rule reachable.step)
qed

lemma reachable_closed_while_running:
  "reachable (example_config False) good_driver closed_while_running"
proof -
  have "enabled (Disconnect 0) running_job" by (simp add: running_job_def eval_defs)
  with reachable_running_job [of False] show ?thesis
    unfolding closed_while_running_def by (rule reachable.step)
qed

lemma prebooted:
  "ChromeService preboot_config good_driver =
     empty_service\<lparr>chromeSwarm := [Inr 0, Inr 1], concurrency := Finite 2,
       browsers := [fresh_chrome (launch_args []), fresh_chrome (launch_args [])],
       launches := 2\<rparr>"
  by (simp add: preboot_config_def eval_defs eval_nat_numeral)

lemma reachable_refreshed_pool:
  "reachable preboot_config good_driver refreshed_pool"
proof -
  have "enabled (Refresh (Inr 0)) (ChromeService preboot_config good_driver)"
    by (simp add: prebooted)
  with reachable.init show ?thesis
    unfolding refreshed_pool_def by (rule reachable.step)
qed

text \<open>
  Claim C1 fails with keep-alive enabled. A request is admitted and its job starts on a
  freshly launched browser; the client disconnects while the handler runs. The
  \<^verbatim>\<open>'close'\<close> listener calls \<^verbatim>\<open>reuseChromeInstance\<close>, which pushes the browser onto the
  swarm, and \<^verbatim>\<open>job.browser\<close> still names it: the handle is in the idle pool and bound to
  a running job. When a second job then starts it takes that handle from the swarm, so
  that two running jobs are bound to it; when instead the first job's handler resolves,
  the handle is pushed again and is in the swarm twice. Nor is a handle that is being
  closed owned by the closing alone,
  with or without keep-alive: without keep-alive the same disconnect closes the browser
  of the job that is still running, and a refresh closes a prebooted browser and leaves
  it in the swarm.
\<close>

theorem exclusive_ownership_counterexample:
  "reachable (example_config True) good_driver after_disconnect \<and>
   Inr 0 \<in> set (chromeSwarm after_disconnect) \<and>
   browser (jobs after_disconnect ! 0) = Some 0 \<and>
   phase (jobs after_disconnect ! 0) = Running \<and>
   reachable (example_config True) good_driver shared_handle \<and>
   browser (jobs shared_handle ! 0) = Some 0 \<and>
   browser (jobs shared_handle ! 1) = Some 0 \<and>
   phase (jobs shared_handle ! 0) = Running \<and>
   phase (jobs shared_handle ! 1) = Running \<and>
   reachable (example_config True) good_driver pooled_twice \<and>
   chromeSwarm pooled_twice = [Inr 0, Inr 0] \<and>
   reachable (example_config False) good_driver closed_while_running \<and>
   \<not> keepAlive (example_config False) \<and>
   closed (browsers closed_while_running ! 0) \<and>
   browser (jobs closed_while_running ! 0) = Some 0 \<and>
   phase (jobs closed_while_running ! 0) = Running \<and>
   reachable preboot_config good_driver refreshed_pool \<and>
   \<not> keepAlive preboot_config \<and>
   closed (browsers refreshed_pool ! 0) \<and>
   Inr 0 \<in> set (chromeSwarm refreshed_pool)"
proof -
  have a: "Inr 0 \<in> set (chromeSwarm after_disconnect) \<and>
      browser (jobs after_disconnect ! 0) = Some 0 \<and>
      phase (jobs after_disconnect ! 0) = Running"
    by (simp add: after_disconnect_eq running_job_def eval_defs)
  have b: "\<not> keepAlive (example_config False) \<and>
      closed (browsers closed_while_running ! 0) \<and>
      browser (jobs closed_while_running ! 0) = Some 0 \<and>
      phase (jobs closed_while_running ! 0) = Running"
    by (simp add: closed_while_running_def running_job_def eval_defs)
  have c: "\<not> keepAlive preboot_config \<and>
      closed (browsers refreshed_pool ! 0) \<and> Inr 0 \<in> set (chromeSwarm refreshed_pool)"
    by (simp only: refreshed_pool_def prebooted) (simp add: preboot_config_def op_defs)
  have d: "browser (jobs shared_handle ! 0) = Some 0 \<and>
      browser (jobs shared_handle ! 1) = Some 0 \<and>
      phase (jobs shared_handle ! 0) = Running \<and>
      phase (jobs shared_handle ! 1) = Running \<and>
      chromeSwarm pooled_twice = [Inr 0, Inr 0]"
    by (simp add: shared_handle_def pooled_twice_def text_result_def after_disconnect_eq
        running_job_def eval_defs)
  from a b c d reachable_after_disconnect reachable_closed_while_running
    reachable_refreshed_pool reachable_shared_handle reachable_pooled_twice
  show ?thesis by blast
qed

text \<open>
  Claim C2 fails with keep-alive enabled: each invocation of \<^verbatim>\<open>job.close\<close> pushes the
  job's browser onto the swarm, so after two invocations the swarm holds it twice.
\<close>

theorem job_close_twice_counterexample:
  "chromeSwarm (job_close (example_config True) 0 running_job) = [Inr 0] \<and>
   chromeSwarm (job_close (example_config True) 0 (job_close (example_config True) 0 running_job)) =
     [Inr 0, Inr 0]"
  by (simp add: running_job_def eval_defs)

text \<open>
  Claim C2, amended. With keep-alive disabled, invoking a job's close procedure twice,
  or invoking it and then the client-disconnect listener, leaves the swarm, the
  open or closed status of every browser, the responses and the queue exactly as one
  invocation leaves them; the second invocation writes no second timeout response, and
  it calls \<^verbatim>\<open>close()\<close> once more on the browser that the first one closed.
\<close>

theorem job_close_twice:
  assumes "\<not> keepAlive cfg" and "j < length (jobs s)"
  shows "chromeSwarm (job_close cfg j (job_close cfg j s)) = chromeSwarm (job_close cfg j s) \<and>
         map closed (browsers (job_close cfg j (job_close cfg j s))) =
           map closed (browsers (job_close cfg j s)) \<and>
         jobs (job_close cfg j (job_close cfg j s)) = jobs (job_close cfg j s) \<and>
         queue (job_close cfg j (job_close cfg j s)) = queue (job_close cfg j s) \<and>
         chromeSwarm (req_on_close cfg j (job_close cfg j s)) = chromeSwarm (job_close cfg j s) \<and>
         map closed (browsers (req_on_close cfg j (job_close cfg j s))) =
           map closed (browsers (job_close cfg j s)) \<and>
         jobs (req_on_close cfg j (job_close cfg j s)) = jobs (job_close cfg j s) \<and>
         (\<forall>b. browser (jobs s ! j) = Some b \<and> b < length (browsers s) \<longrightarrow>
            close_calls (browsers (job_close cfg j (job_close cfg j s)) ! b) =
              close_calls (browsers s ! b) + 2)"
proof -
  show ?thesis
    using assms
    by (cases "browser (jobs s ! j)")
       (auto simp add: job_close_def req_on_close_def Let_def browser_close_def upd_browser_def
          upd_job_def headersSent_def res_send_def res_status_def map_update closed_def
          nth_list_update)
qed

theorem job_close_twice_witness:
  "chromeSwarm (job_close (example_config False) 0 (job_close (example_config False) 0 running_job)) =
     chromeSwarm (job_close (example_config False) 0 running_job) \<and>
   map closed (browsers (job_close (example_config False) 0
      (job_close (example_config False) 0 running_job))) = [True] \<and>
   sent (res (jobs (job_close (example_config False) 0
      (job_close (example_config False) 0 running_job)) ! 0)) =
     [(408, ''browserless function has timed-out'')]"
proof -
  have a: "\<not> keepAlive (example_config False)" "0 < length (jobs running_job)"
    by (simp_all add: running_job_def eval_defs)
  have b: "map closed (browsers (job_close (example_config False) 0 running_job)) = [True]"
    "sent (res (jobs (job_close (example_config False) 0 running_job) ! 0)) =
       [(408, ''browserless function has timed-out'')]"
    by (simp_all add: running_job_def eval_defs)
  from job_close_twice [OF a] b show ?thesis by simp
qed

subsection \<open>A bound handle is not in the swarm, without keep-alive\<close>

lemma pool_handles_append:
  "pool_handles (ps @ qs) = pool_handles ps @ pool_handles qs"
  by (induction ps rule: pool_handles.induct) simp_all

lemma pool_handles_mem: "(Inr h \<in> set ps) = (h \<in> set (pool_handles ps))"
  by (induction ps rule: pool_handles.induct) auto

lemma unshared_new_job: "unshared bound \<Longrightarrow> unshared (bound @ [None])"
  by (auto simp add: unshared_def nth_append less_Suc_eq)

lemma unshared_update:
  assumes "unshared bound" and "Some b \<notin> set bound"
  shows "unshared (bound[j := Some b])"
  unfolding unshared_def
proof (intro allI impI)
  fix i k
  assume i: "i < length (bound[j := Some b])" and k: "k < length (bound[j := Some b])"
    and eq: "bound[j := Some b] ! i = bound[j := Some b] ! k \<and> bound[j := Some b] ! i \<noteq> None"
  show "i = k"
  proof (cases "i = j")
    case True
    show ?thesis
    proof (cases "k = j")
      case True
      with \<open>i = j\<close> show ?thesis by simp
    next
      case False
      with True i k eq have "bound ! k = Some b" by simp
      with k have "Some b \<in> set bound" by (metis length_list_update nth_mem)
      with assms(2) show ?thesis by simp
    qed
  next
    case False
    show ?thesis
    proof (cases "k = j")
      case True
      with False i k eq have "bound ! i = Some b" by simp
      with i have "Some b \<in> set bound" by (metis length_list_update nth_mem)
      with assms(2) show ?thesis by simp
    next
      case kj: False
      from False have ni: "bound[j := Some b] ! i = bound ! i" by simp
      from kj have nk: "bound[j := Some b] ! k = bound ! k" by simp
      from eq have "bound[j := Some b] ! i = bound[j := Some b] ! k"
        and "bound[j := Some b] ! i \<noteq> None" by blast+
      with ni nk have e1: "bound ! i = bound ! k" and e2: "bound ! i \<noteq> None"
        by simp_all
      from i k have l: "i < length bound" "k < length bound" by simp_all
      from assms(1) l e1 e2 show ?thesis unfolding unshared_def by blast
    qed
  qed
qed

lemma excl_push_fresh: "excl pool bound n \<Longrightarrow> excl (pool @ [n]) bound (Suc n)"
  by (fastforce simp add: excl_def)

lemma excl_grow: "excl pool bound n \<Longrightarrow> excl pool bound (Suc n)"
  by (fastforce simp add: excl_def)

lemma excl_drop: "excl (b # pool) bound n \<Longrightarrow> excl pool bound n"
  by (simp add: excl_def)

lemma excl_new_job: "excl pool bound n \<Longrightarrow> excl pool (bound @ [None]) n"
  by (simp add: excl_def unshared_new_job)

lemma excl_take:
  assumes "excl (b # pool) bound n"
  shows "excl pool (bound[j := Some b]) n"
proof -
  have sub: "set (bound[j := Some b]) \<subseteq> insert (Some b) (set bound)"
    by (rule set_update_subset_insert)
  from assms have "Some b \<notin> set bound" by (auto simp add: excl_def)
  with assms have "unshared (bound[j := Some b])" by (simp add: excl_def unshared_update)
  with assms sub show ?thesis by (fastforce simp add: excl_def)
qed

lemma excl_bind_fresh:
  assumes "excl pool bound n"
  shows "excl pool (bound[j := Some n]) (Suc n)"
proof -
  have sub: "set (bound[j := Some n]) \<subseteq> insert (Some n) (set bound)"
    by (rule set_update_subset_insert)
  from assms have "Some n \<notin> set bound" by (auto simp add: excl_def)
  with assms have "unshared (bound[j := Some n])" by (simp add: excl_def unshared_update)
  with assms sub show ?thesis by (fastforce simp add: excl_def)
qed

lemma map_update_same: "(map f xs)[j := f (xs ! j)] = map f xs"
  by (cases "j < length xs") (simp_all add: list_update_same_conv list_update_beyond)

lemma exclusive_cong:
  assumes "chromeSwarm t = chromeSwarm s" and "map browser (jobs t) = map browser (jobs s)"
    and "length (browsers t) = length (browsers s)"
  shows "exclusive t = exclusive s"
  using assms by (simp add: exclusive_def)

lemma exclusive_push_launch:
  assumes "exclusive s"
  shows "exclusive (push_launch drv s)"
proof (cases rule: push_launch_cases [of drv s])
  case (started n)
  with assms excl_push_fresh show ?thesis
    by (simp add: exclusive_def pool_handles_append)
next
  case (failed n e)
  with assms show ?thesis by (simp add: exclusive_def pool_handles_append)
qed

lemma exclusive_addToChromeSwarm:
  "exclusive s \<Longrightarrow> exclusive (addToChromeSwarm cfg drv s)"
  by (simp add: addToChromeSwarm_def exclusive_push_launch)

lemma exclusive_onSession:
  assumes "exclusive s"
  shows "exclusive (onSessionComplete cfg drv s)" and "exclusive (onSessionFail cfg drv s)"
proof -
  have "exclusive (s\<lparr>currentStat := c\<rparr>)" for c
    using assms by (simp add: exclusive_def)
  then show "exclusive (onSessionComplete cfg drv s)" and "exclusive (onSessionFail cfg drv s)"
    by (simp_all add: onSessionComplete_def onSessionFail_def exclusive_addToChromeSwarm)
qed

lemma exclusive_upd_browser: "exclusive (upd_browser h f s) = exclusive s"
  by (simp add: exclusive_def upd_browser_def)

lemma exclusive_upd_job:
  assumes "browser (g (jobs s ! j)) = browser (jobs s ! j)"
  shows "exclusive (upd_job j g s) = exclusive s"
  using assms map_update_same [of browser "jobs s" j]
  by (simp add: exclusive_def upd_job_def map_update)

lemma exclusive_queue_next: "exclusive (queue_next j s) = exclusive s"
  by (simp add: exclusive_def queue_next_def)

lemma exclusive_runFunction:
  assumes "exclusive s"
  shows "exclusive (snd (runFunction cfg vm_run strained code s))"
  using assms excl_new_job
  by (cases "vm_run code")
     (simp_all add: runFunction_def Let_def onQueued_def exclusive_def new_job_def)

lemma exclusive_autoUpdateQueue:
  "exclusive s \<Longrightarrow> exclusive (autoUpdateQueue cfg strained s)"
  by (simp add: autoUpdateQueue_def exclusive_def)

lemma exclusive_job_close:
  assumes "\<not> keepAlive cfg"
  shows "exclusive (job_close cfg j s) = exclusive s"
  using assms
  by (simp add: job_close_def Let_def browser_close_def exclusive_upd_browser exclusive_upd_job
      split: option.splits)

lemma exclusive_req_on_close:
  assumes "\<not> keepAlive cfg"
  shows "exclusive (req_on_close cfg j s) = exclusive s"
  using assms
  by (simp add: req_on_close_def browser_close_def exclusive_upd_browser split: option.splits)

lemma exclusive_onTimedOut:
  assumes "\<not> keepAlive cfg" and "exclusive s"
  shows "exclusive (onTimedOut cfg drv j s)"
proof -
  let ?s1 = "job_close cfg j s"
  let ?s3 = "?s1\<lparr>currentStat := (currentStat ?s1)\<lparr>timedout := timedout (currentStat ?s1) + 1\<rparr>,
                  timeoutHook_calls := Suc (timeoutHook_calls ?s1)\<rparr>"
  from assms have "exclusive ?s1" by (simp add: exclusive_job_close)
  then have "exclusive ?s3" by (simp add: exclusive_def)
  then have "exclusive (onSessionComplete cfg drv ?s3)" by (rule exclusive_onSession)
  then show ?thesis by (simp add: onTimedOut_def Let_def exclusive_queue_next)
qed

lemma exclusive_with_res:
  "with_res j f s = Inr s1 \<Longrightarrow> exclusive s1 = exclusive s"
  "with_res j f s = Inl (e, s1) \<Longrightarrow> exclusive s1 = exclusive s"
  by (auto simp add: with_res_def exclusive_upd_job split: sum.splits)

lemma exclusive_job_catch:
  "job_catch j b err s = Inr s1 \<Longrightarrow> exclusive s1 = exclusive s"
  "job_catch j b err s = Inl (e, s1) \<Longrightarrow> exclusive s1 = exclusive s"
  by (auto simp add: job_catch_def Let_def browser_close_def exclusive_upd_browser
      exclusive_upd_job dest!: exclusive_with_res split: sum.splits)

lemma exclusive_after_catch:
  "exclusive (snd (after_catch (job_catch j b err s))) = exclusive s"
  by (auto simp add: after_catch_def dest: exclusive_job_catch split: sum.splits)

lemma exclusive_job_then:
  assumes "\<not> keepAlive cfg"
  shows "job_then cfg j b pg d t s = Inr s1 \<Longrightarrow> exclusive s1 = exclusive s"
    and "job_then cfg j b pg d t s = Inl (err, s1) \<Longrightarrow> exclusive s1 = exclusive s"
  using assms
  by (auto simp add: job_then_def Let_def browser_close_def exclusive_upd_browser
      dest!: exclusive_with_res split: payload.splits option.splits if_splits sum.splits)

lemma exclusive_job_settle:
  assumes "\<not> keepAlive cfg"
  shows "exclusive (snd (job_settle cfg j r s)) = exclusive s"
proof (cases r)
  case (Resolves d t)
  show ?thesis
  proof (cases "browser (jobs s ! j)")
    case None
    with Resolves show ?thesis by (simp add: job_settle_def)
  next
    case (Some b)
    show ?thesis
    proof (cases "page (jobs s ! j)")
      case None
      with Resolves Some show ?thesis by (simp add: job_settle_def)
    next
      case pg: (Some pg)
      show ?thesis
      proof (cases "job_then cfg j b pg d t s")
        case (Inl x)
        obtain e s1 where x: "x = (e, s1)" by (cases x)
        with Inl exclusive_job_then(2) [OF assms] have "exclusive s1 = exclusive s" by blast
        with Resolves Some pg Inl x show ?thesis
          by (simp add: job_settle_def exclusive_after_catch)
      next
        case (Inr s1)
        with exclusive_job_then(1) [OF assms] have "exclusive s1 = exclusive s" by blast
        with Resolves Some pg Inr show ?thesis by (simp add: job_settle_def)
      qed
    qed
  qed
qed (simp_all add: job_settle_def exclusive_after_catch split: option.splits)

lemma exclusive_queue_settle:
  assumes "\<not> keepAlive cfg" and "exclusive s"
  shows "exclusive (queue_settle cfg drv j r s)"
proof -
  let ?s1 = "upd_job j (\<lambda>jb. jb\<lparr>settled := True\<rparr>) (snd (job_settle cfg j r s))"
  from assms have s1: "exclusive ?s1" by (simp add: exclusive_upd_job exclusive_job_settle)
  then have "exclusive (queue_next j (upd_job j (\<lambda>jb. jb\<lparr>phase := ph\<rparr>) ?s1))" for ph
    by (simp add: exclusive_upd_job exclusive_queue_next)
  then have "exclusive (onSessionComplete cfg drv
      (queue_next j (upd_job j (\<lambda>jb. jb\<lparr>phase := Succeeded\<rparr>) ?s1)))"
    and "exclusive (onSessionFail cfg drv
      (queue_next j (upd_job j (\<lambda>jb. jb\<lparr>phase := Errored\<rparr>) ?s1)))"
    by (simp_all add: exclusive_onSession)
  with s1 show ?thesis by (simp add: queue_settle_def Let_def split: option.splits)
qed

lemma exclusive_refreshChromeInstance:
  assumes "\<not> keepAlive cfg"
  shows "exclusive (refreshChromeInstance cfg drv p s) = exclusive s"
  using assms
  by (simp add: refreshChromeInstance_def Let_def browser_close_def exclusive_upd_browser
      split: sum.splits)

lemma exclusive_handler_opens_page:
  "exclusive (handler_opens_page j s) = exclusive s"
  by (simp add: handler_opens_page_def newPage_def exclusive_upd_browser split: option.splits)

lemma exclusive_launchChrome:
  assumes "exclusive s"
  shows "exclusive (snd (launchChrome drv flags retries s))"
proof (cases rule: launchChrome_cases [of drv flags retries s])
  case (started n)
  with assms excl_grow show ?thesis by (simp add: exclusive_def)
next
  case (failed n e)
  with assms show ?thesis by (simp add: exclusive_def)
qed

lemma exclusive_getChrome:
  assumes "exclusive s" and "getChrome drv flags s = Inr (p, s1)"
  shows "exclusive s1"
proof (cases flags)
  case Undefined
  with assms(2) show ?thesis by (simp add: getChrome_def)
next
  case (Array fl)
  show ?thesis
  proof (cases "fl = [] \<and> chromeSwarm s \<noteq> []")
    case True
    then obtain q rest where sw: "chromeSwarm s = q # rest" by (cases "chromeSwarm s") auto
    with True Array assms(2) have s1: "s1 = s\<lparr>chromeSwarm := rest\<rparr>"
      by (simp add: getChrome_def)
    from assms(1) sw have "excl (pool_handles rest) (map browser (jobs s)) (length (browsers s))"
      by (cases q) (auto simp add: exclusive_def dest: excl_drop)
    with s1 show ?thesis by (simp add: exclusive_def)
  next
    case False
    with Array assms(2) have "s1 = snd (launchChrome drv fl 1 s)"
      by (auto simp add: getChrome_def split: list.splits)
    with assms(1) show ?thesis by (simp add: exclusive_launchChrome)
  qed
qed

lemma exclusive_queue_start:
  assumes "exclusive s"
  shows "exclusive (queue_start cfg drv j s)"
proof -
  let ?s0 = "upd_job j (\<lambda>jb. jb\<lparr>phase := Running\<rparr>) s"
  from assms have s0: "exclusive ?s0" by (simp add: exclusive_upd_job)
  have fail: "exclusive (onSessionFail cfg drv
        (queue_next j (upd_job j (\<lambda>jb. jb\<lparr>phase := Errored\<rparr>) t)))" if "exclusive t" for t
    using that by (simp add: exclusive_onSession exclusive_queue_next exclusive_upd_job)
  have bind: "exclusive (upd_job j (\<lambda>jb. jb\<lparr>browser := Some b, page := Some pg\<rparr>) t)"
    if "excl (pool_handles (chromeSwarm t)) ((map browser (jobs t))[j := Some b]) (length (browsers t))"
    for t b pg
    using that by (simp add: exclusive_def upd_job_def map_update)
  show ?thesis
  proof (cases "chromeSwarm ?s0")
    case Nil
    show ?thesis
    proof (cases rule: launchChrome_cases [of drv "[]" 1 ?s0])
      case (started n)
      let ?t = "snd (newPage (length (browsers ?s0))
                  (?s0\<lparr>launches := launches ?s0 + Suc n,
                       browsers := browsers ?s0 @ [fresh_chrome (launch_args [])]\<rparr>))"
      from s0 have "excl (pool_handles (chromeSwarm ?t))
          ((map browser (jobs ?t))[j := Some (length (browsers ?s0))]) (length (browsers ?t))"
        by (simp add: exclusive_def newPage_def upd_browser_def excl_bind_fresh)
      then have "exclusive (upd_job j (\<lambda>jb. jb\<lparr>browser := Some (length (browsers ?s0)),
                    page := Some (fst (newPage (length (browsers ?s0))
                  (?s0\<lparr>launches := launches ?s0 + Suc n,
                       browsers := browsers ?s0 @ [fresh_chrome (launch_args [])]\<rparr>)))\<rparr>) ?t)"
        by (rule bind)
      with Nil started show ?thesis
        by (simp add: queue_start_def job_start_def case_prod_beta)
    next
      case (failed n e)
      from s0 have "exclusive (?s0\<lparr>launches := launches ?s0 + Suc n\<rparr>)"
        by (simp add: exclusive_def)
      from fail [OF this] Nil failed show ?thesis
        by (simp add: queue_start_def job_start_def)
    qed
  next
    case (Cons p rest)
    show ?thesis
    proof (cases p)
      case (Inl e)
      from s0 Cons Inl have "exclusive (?s0\<lparr>chromeSwarm := rest\<rparr>)"
        by (simp add: exclusive_def)
      from fail [OF this] Cons Inl show ?thesis
        by (simp add: queue_start_def job_start_def)
    next
      case (Inr b)
      let ?t = "snd (newPage b (?s0\<lparr>chromeSwarm := rest\<rparr>))"
      from s0 Cons Inr have "excl (pool_handles (chromeSwarm ?t))
          ((map browser (jobs ?t))[j := Some b]) (length (browsers ?t))"
        by (simp add: exclusive_def newPage_def upd_browser_def excl_take)
      then have "exclusive (upd_job j (\<lambda>jb. jb\<lparr>browser := Some b,
                    page := Some (fst (newPage b (?s0\<lparr>chromeSwarm := rest\<rparr>)))\<rparr>) ?t)"
        by (rule bind)
      with Cons Inr show ?thesis
        by (simp add: queue_start_def job_start_def case_prod_beta)
    qed
  qed
qed

lemma exclusive_preboot:
  "exclusive s \<Longrightarrow> exclusive (preboot drv n s)"
  by (induction n arbitrary: s) (simp_all add: exclusive_push_launch)

lemma exclusive_init: "exclusive (ChromeService cfg drv)"
proof -
  have "exclusive \<lparr>chromeSwarm = [], queue = [], concurrency = c, jobs = [],
                currentStat = \<lparr>successful = 0, error = 0, timedout = 0, queued = 0\<rparr>,
                timeoutHook_calls = 0, queueHook_calls = 0, browsers = [], launches = 0\<rparr>"
    for c by (simp add: exclusive_def excl_def unshared_def)
  then show ?thesis by (simp add: ChromeService_def Let_def exclusive_preboot)
qed

lemma exclusive_step:
  assumes "\<not> keepAlive cfg" and "exclusive s"
  shows "exclusive (step cfg drv e s)"
proof (cases e)
  case (Request strained code thrown)
  with assms show ?thesis by (simp add: exclusive_runFunction)
next
  case (AutoUpdate strained)
  with assms show ?thesis by (simp add: exclusive_autoUpdateQueue)
next
  case (Start j)
  with assms show ?thesis by (simp add: exclusive_queue_start)
next
  case (HandlerOpensPage j)
  with assms show ?thesis by (simp add: exclusive_handler_opens_page)
next
  case (Settle j r)
  with assms show ?thesis by (simp add: exclusive_queue_settle)
next
  case (Timeout j)
  with assms show ?thesis
    by (simp add: queue_timeout_def exclusive_onTimedOut exclusive_upd_job)
next
  case (Disconnect j)
  with assms show ?thesis by (simp add: exclusive_req_on_close)
next
  case (Refresh p)
  with assms show ?thesis by (simp add: exclusive_refreshChromeInstance)
next
  case (GetChrome flags)
  with assms show ?thesis
    by (auto simp add: exclusive_getChrome split: sum.splits)
qed

lemma reachable_exclusive:
  assumes "\<not> keepAlive cfg"
  shows "reachable cfg drv s \<Longrightarrow> exclusive s"
proof (induction rule: reachable.induct)
  case init
  show ?case by (rule exclusive_init)
next
  case (step s e)
  with assms show ?case by (simp add: exclusive_step)
qed

text \<open>
  Claim C1, amended. With keep-alive disabled, in every state the service can reach
  through requests, job starts, handler activity and settlements, timeouts, client
  disconnects, refreshes and \<^verbatim>\<open>getChrome\<close> calls: no handle is in the swarm twice, a
  browser handle that a job is bound to is not in the swarm, and no two jobs are bound
  to the same handle.
\<close>

theorem bound_handle_not_pooled:
  assumes "reachable cfg drv s" and "\<not> keepAlive cfg"
  shows "distinct (pool_handles (chromeSwarm s)) \<and>
         (\<forall>j<length (jobs s). \<forall>h. browser (jobs s ! j) = Some h \<longrightarrow>
            Inr h \<notin> set (chromeSwarm s) \<and>
            (\<forall>i<length (jobs s). browser (jobs s ! i) = Some h \<longrightarrow> i = j))"
proof -
  from assms have ex: "exclusive s" by (simp add: reachable_exclusive)
  then have "distinct (pool_handles (chromeSwarm s))" by (simp add: exclusive_def excl_def)
  moreover have "Inr h \<notin> set (chromeSwarm s) \<and>
      (\<forall>i<length (jobs s). browser (jobs s ! i) = Some h \<longrightarrow> i = j)"
    if j: "j < length (jobs s)" and h: "browser (jobs s ! j) = Some h" for j h
  proof -
    from j h have "Some h \<in> set (map browser (jobs s))"
      by (metis length_map nth_map nth_mem)
    with ex have "Inr h \<notin> set (chromeSwarm s)"
      by (simp add: exclusive_def excl_def pool_handles_mem)
    moreover have "i = j" if "i < length (jobs s)" and "browser (jobs s ! i) = Some h" for i
    proof -
      from ex have u: "unshared (map browser (jobs s))" by (simp add: exclusive_def excl_def)
      from that(1) j have l: "i < length (map browser (jobs s))" "j < length (map browser (jobs s))"
        by simp_all
      from that j h have e1: "map browser (jobs s) ! i = map browser (jobs s) ! j" by simp
      from that h have e2: "map browser (jobs s) ! i \<noteq> None" by simp
      from u l e1 e2 show ?thesis unfolding unshared_def by blast
    qed
    ultimately show ?thesis by blast
  qed
  ultimately show ?thesis by blast
qed

lemma two_jobs_eq:
  "two_jobs =
     empty_service\<lparr>queue := [0, 1], concurrency := Finite 2,
       jobs := [new_job\<lparr>browser := Some 0, page := Some 0, phase := Running\<rparr>,
                new_job\<lparr>browser := Some 1, page := Some 0, phase := Running\<rparr>],
       browsers := [(fresh_chrome (launch_args []))\<lparr>open_pages := [0], next_page := 1\<rparr>,
                    (fresh_chrome (launch_args []))\<lparr>open_pages := [0], next_page := 1\<rparr>],
       launches := 2\<rparr>"
  by (simp only: two_jobs_def prebooted) (simp add: preboot_config_def op_defs)

lemma reachable_two_jobs: "reachable preboot_config good_driver two_jobs"
proof -
  let ?s0 = "ChromeService preboot_config good_driver"
  let ?s1 = "step preboot_config good_driver (Request False ''x'' None) ?s0"
  let ?s2 = "step preboot_config good_driver (Request False ''x'' None) ?s1"
  let ?s3 = "step preboot_config good_driver (Start 0) ?s2"
  have r1: "reachable preboot_config good_driver ?s1"
    by (rule reachable.step [OF reachable.init]) simp
  then have r2: "reachable preboot_config good_driver ?s2"
    by (rule reachable.step) simp
  have "enabled (Start 0) ?s2"
    by (simp only: prebooted) (simp add: preboot_config_def op_defs)
  with r2 have r3: "reachable preboot_config good_driver ?s3" by (rule reachable.step)
  have "enabled (Start 1) ?s3"
    by (simp only: prebooted) (simp add: preboot_config_def op_defs)
  with r3 show ?thesis unfolding two_jobs_def by (rule reachable.step)
qed

lemma reachable_busy_pool: "reachable preboot_config good_driver busy_pool"
proof -
  have "enabled (Settle 0 text_result) two_jobs" by (simp add: two_jobs_eq op_defs)
  with reachable_two_jobs show ?thesis unfolding busy_pool_def by (rule reachable.step)
qed

lemma busy_pool_facts:
  "chromeSwarm busy_pool = [Inr 2]" "length (jobs busy_pool) = 2"
  "browser (jobs busy_pool ! 0) = Some 0" "browser (jobs busy_pool ! 1) = Some 1"
  "phase (jobs busy_pool ! 1) = Running"
  by (simp_all add: busy_pool_def two_jobs_eq text_result_def preboot_config_def op_defs)

theorem bound_handle_not_pooled_witness:
  "chromeSwarm busy_pool = [Inr 2] \<and>
   browser (jobs busy_pool ! 0) = Some 0 \<and>
   browser (jobs busy_pool ! 1) = Some 1 \<and>
   phase (jobs busy_pool ! 1) = Running \<and>
   distinct (pool_handles (chromeSwarm busy_pool)) \<and>
   Inr 1 \<notin> set (chromeSwarm busy_pool) \<and>
   Inr 0 \<notin> set (chromeSwarm busy_pool)"
proof -
  have k: "\<not> keepAlive preboot_config" by (simp add: preboot_config_def example_config_def)
  from bound_handle_not_pooled [OF reachable_busy_pool k] busy_pool_facts
  show ?thesis by simp
qed

subsection \<open>Where the code leaves the specified behaviour\<close>

lemma reachable_after_success:
  "reachable (example_config True) good_driver after_success"
proof -
  have "enabled (Settle 0 text_result) running_job" by (simp add: running_job_def eval_defs)
  with reachable_running_job [of True] show ?thesis
    unfolding after_success_def by (rule reachable.step)
qed

lemma reachable_after_extra_page:
  "reachable (example_config True) good_driver after_extra_page"
proof -
  let ?cfg = "example_config True"
  let ?s = "step ?cfg good_driver (HandlerOpensPage 0) running_job"
  have "enabled (HandlerOpensPage 0) running_job" by (simp add: running_job_def eval_defs)
  with reachable_running_job [of True] have r: "reachable ?cfg good_driver ?s"
    by (rule reachable.step)
  have "enabled (Settle 0 text_result) ?s" by (simp add: running_job_def eval_defs)
  with r show ?thesis unfolding after_extra_page_def by (rule reachable.step)
qed

text \<open>
  Claim C5 fails on the code. Keep-alive is enabled, two concurrent sessions are
  configured, and the swarm holds one idle browser, returned by a job that succeeded.
  \<^verbatim>\<open>refreshChromeInstance\<close> closes that browser and, the swarm's length \<open>1\<close> not being
  \<open>\<ge> 2\<close>, launches no replacement: the driver is not called, and the swarm is left
  holding the closed browser only. A whole refresh pass over this swarm does the same.
\<close>

theorem refresh_launches_no_replacement:
  "reachable (example_config True) good_driver after_success \<and>
   keepAlive (example_config True) \<and>
   chromeSwarm after_success = [Inr 0] \<and>
   int (length (chromeSwarm after_success)) < maxConcurrentSessions (example_config True) \<and>
   closed (browsers (refreshChromeInstance (example_config True) good_driver (Inr 0) after_success) ! 0) \<and>
   chromeSwarm (refreshChromeInstance (example_config True) good_driver (Inr 0) after_success) = [Inr 0] \<and>
   launches (refreshChromeInstance (example_config True) good_driver (Inr 0) after_success) =
     launches after_success \<and>
   refresh_pass (example_config True) good_driver after_success =
     refreshChromeInstance (example_config True) good_driver (Inr 0) after_success"
  using reachable_after_success
  by (simp add: after_success_def running_job_def text_result_def refresh_pass_def eval_defs)

text \<open>
  Without keep-alive a job whose handler resolves closes its browser and leaves the swarm
  as it was.
\<close>

lemma success_without_keepAlive:
  assumes "\<not> keepAlive cfg"
    and "browser (jobs s ! j) = Some b" and "page (jobs s ! j) = Some pg"
    and "b < length (browsers s)"
  shows "chromeSwarm (snd (job_settle cfg j (Resolves d t) s)) = chromeSwarm s \<and>
         closed (browsers (snd (job_settle cfg j (Resolves d t) s)) ! b)"
  using assms
  by (cases d; cases t; cases "headersSent (res (jobs s ! j))")
     (simp_all add: job_settle_def job_then_def job_catch_def after_catch_def with_res_def
        express_type_def express_send_def thrown_message_def Let_def browser_close_def
        upd_browser_def upd_job_def closed_def headersSent_def res_type_def res_send_def
        res_status_def
        split: if_splits)

text \<open>
  Claim C8 fails on the code. Keep-alive is enabled; the handler opens a second page of
  its browser and resolves. The \<^verbatim>\<open>then\<close> branch closes the job's own page only and pushes
  the browser onto the swarm: the handle is back in the idle pool with the second page
  still open.
\<close>

theorem success_recycles_with_open_page:
  "reachable (example_config True) good_driver after_extra_page \<and>
   keepAlive (example_config True) \<and>
   phase (jobs after_extra_page ! 0) = Succeeded \<and>
   chromeSwarm after_extra_page = [Inr 0] \<and>
   pages 0 after_extra_page = [1]"
  using reachable_after_extra_page
  by (simp add: after_extra_page_def running_job_def text_result_def eval_defs)

end
